theory Spec2Isabelle
  imports Complex_Main "HOL-Library.Log_Nat" "HOL-Library.Word"
begin

section \<open>Binary64 arithmetic\<close>

text \<open>
  Python's \<^verbatim>\<open>float\<close> is an IEEE 754 binary64 number. A finite float is modelled by
  its exact value, a rational; every arithmetic operation computes the exact result and
  rounds it to the nearest binary64 value, ties to the even significand. The exponent
  range is bounded below (subnormals, unit \<open>2 powi - 1074\<close>) and left unbounded above:
  overflow is detected where the source can raise on it (\<open>py_pow2\<close>, \<open>int_to_float\<close>).
\<close>

definition round_half_even :: "rat \<Rightarrow> int" where
  "round_half_even q =
     (let f = \<lfloor>q\<rfloor>; r = q - of_int f
      in if r < 1/2 then f else if 1/2 < r then f + 1 else if even f then f else f + 1)"

definition ilog2 :: "rat \<Rightarrow> int" where
  "ilog2 q =
     (let (a, b) = quotient_of \<bar>q\<bar>; d = bitlen a - bitlen b
      in if 2 powi d \<le> \<bar>q\<bar> then d else d - 1)"

definition ulp_exp :: "rat \<Rightarrow> int" where
  "ulp_exp q = max (ilog2 q - 52) (- 1074)"

definition rnd :: "rat \<Rightarrow> rat" where
  "rnd q = (if q = 0 then 0
            else of_int (round_half_even (q / 2 powi ulp_exp q)) * 2 powi ulp_exp q)"

definition fadd :: "rat \<Rightarrow> rat \<Rightarrow> rat" where
  "fadd x y = rnd (x + y)"

definition fsub :: "rat \<Rightarrow> rat \<Rightarrow> rat" where
  "fsub x y = rnd (x - y)"

definition fmul :: "rat \<Rightarrow> rat \<Rightarrow> rat" where
  "fmul x y = rnd (x * y)"

definition fdiv :: "rat \<Rightarrow> rat \<Rightarrow> rat" where
  "fdiv x y = rnd (x / y)"

definition float_max_bound :: rat where
  "float_max_bound = 2 ^ 1024"

text \<open>A decimal literal of the source denotes the nearest binary64 value.\<close>

definition GMP_LATITUDE :: rat where
  "GMP_LATITUDE = rnd (37558 / 1000)"

definition GMP_LONGITUDE :: rat where
  "GMP_LONGITUDE = rnd (126794 / 1000)"

definition MONITORING_RADIUS_KM :: int where
  "MONITORING_RADIUS_KM = 5"

section \<open>Values, exceptions\<close>

text \<open>
  The values that travel between the endpoints are JSON values as Python's decoder
  produces them: \<open>JInt\<close> is an \<^verbatim>\<open>int\<close>, \<open>JFloat\<close> a finite \<^verbatim>\<open>float\<close>,
  \<open>JObj\<close> a \<^verbatim>\<open>dict\<close> with its keys in insertion order.
\<close>

datatype json =
    JNull
  | JBool bool
  | JInt int
  | JFloat rat
  | JStr string
  | JArr "json list"
  | JObj "(string \<times> json) list"

datatype py_error =
    RequestException string
  | HTTPError string
  | RequestsJSONDecodeError string
  | ValueError string
  | KeyError string
  | TypeError
  | AttributeError
  | OverflowError

text \<open>
  \<open>is_request_exception e\<close>: the exception is an instance of
  \<^verbatim>\<open>requests.exceptions.RequestException\<close>, the only class the report endpoint catches.
\<close>

fun is_request_exception :: "py_error \<Rightarrow> bool" where
  "is_request_exception (RequestException _) = True"
| "is_request_exception (HTTPError _) = True"
| "is_request_exception (RequestsJSONDecodeError _) = True"
| "is_request_exception _ = False"

text \<open>\<open>exc_text e\<close> is \<^verbatim>\<open>str(e)\<close>, used only on the exceptions that are caught.\<close>

fun exc_text :: "py_error \<Rightarrow> string" where
  "exc_text (RequestException m) = m"
| "exc_text (HTTPError m) = m"
| "exc_text (RequestsJSONDecodeError m) = m"
| "exc_text (ValueError m) = m"
| "exc_text (KeyError k) = k"
| "exc_text TypeError = []"
| "exc_text AttributeError = []"
| "exc_text OverflowError = []"

definition digit_char :: "nat \<Rightarrow> char" where
  "digit_char d = ''0123456789'' ! (d mod 10)"

fun str_nat :: "nat \<Rightarrow> string" where
  "str_nat n = (if n < 10 then [digit_char n] else str_nat (n div 10) @ [digit_char (n mod 10)])"

declare str_nat.simps [simp del]

text \<open>Sequencing of steps that can raise: the first exception ends the computation.\<close>

fun bind_err :: "'e + 'a \<Rightarrow> ('a \<Rightarrow> 'e + 'b) \<Rightarrow> 'e + 'b" where
  "bind_err (Inl e) f = Inl e"
| "bind_err (Inr x) f = f x"

section \<open>The radius predicate\<close>

text \<open>
  \<open>int_to_float n\<close>: the conversion Python applies to an \<^verbatim>\<open>int\<close> operand of a
  float operation; it raises OverflowError when the integer is too large.
\<close>

definition int_to_float :: "int \<Rightarrow> py_error + rat" where
  "int_to_float n =
     (if float_max_bound \<le> \<bar>rnd (of_int n)\<bar> then Inl OverflowError else Inr (rnd (of_int n)))"

text \<open>
  \<open>as_float v\<close>: the left operand of \<^verbatim>\<open>v - GMP_LATITUDE\<close>. A float is taken as it
  is, an int (and a bool, which is an int) is converted, anything else is a TypeError.
\<close>

fun as_float :: "json \<Rightarrow> py_error + rat" where
  "as_float (JFloat q) = Inr q"
| "as_float (JInt n) = int_to_float n"
| "as_float (JBool b) = Inr (if b then 1 else 0)"
| "as_float _ = Inl TypeError"

text \<open>
  \<^verbatim>\<open>x ** 2\<close> on a float calls the C library's \<^verbatim>\<open>pow(x, 2.0)\<close>, which is not
  required to round correctly. Its result is the parameter \<open>pw\<close>; Python raises
  OverflowError when the result is out of range.
\<close>

definition py_pow2 :: "(rat \<Rightarrow> rat) \<Rightarrow> rat \<Rightarrow> py_error + rat" where
  "py_pow2 pw x = (if float_max_bound \<le> \<bar>pw x\<bar> then Inl OverflowError else Inr (pw x))"

definition deg_per_km :: rat where
  "deg_per_km = fdiv 1 111"

definition radius_in_deg :: rat where
  "radius_in_deg = fmul (of_int MONITORING_RADIUS_KM) deg_per_km"

definition is_within_radius :: "(rat \<Rightarrow> rat) \<Rightarrow> json \<Rightarrow> json \<Rightarrow> py_error + bool" where
  "is_within_radius pw lat lon =
     bind_err (as_float lat) (\<lambda>a.
     bind_err (py_pow2 pw (fsub a GMP_LATITUDE)) (\<lambda>x.
     bind_err (as_float lon) (\<lambda>b.
     bind_err (py_pow2 pw (fsub b GMP_LONGITUDE)) (\<lambda>y.
     bind_err (py_pow2 pw radius_in_deg) (\<lambda>r.
     Inr (fadd x y < r))))))"

section \<open>The report endpoint\<close>

text \<open>
  The outcome of \<^verbatim>\<open>requests.get(kma_api_url)\<close> is an input of the model: the call
  raises a RequestException with some text (connection refused, timeout, ...), or it
  returns a response. \<open>body\<close> is the decoded JSON document (\<open>Inr\<close>), or the way the
  decoder fails on the body (\<open>Inl\<close>): \<open>NotJSON\<close> is the decoder's JSONDecodeError on a
  text that is not JSON, \<open>IntTooLong\<close> the plain ValueError of CPython 3.11 and later on
  an integer literal beyond the digit limit; both carry the message.
\<close>

datatype decode_failure = NotJSON string | IntTooLong string

record response =
  status_code :: nat
  reason :: string
  url :: string
  body :: "decode_failure + json"

datatype kma_call = Raises string | Returns response

text \<open>
  \<^verbatim>\<open>Response.raise_for_status\<close> of the requests library raises HTTPError for the
  status codes 400 to 599 and returns for every other code.
\<close>

definition raise_for_status :: "response \<Rightarrow> py_error + unit" where
  "raise_for_status r =
     (if 400 \<le> status_code r \<and> status_code r < 500
      then Inl (HTTPError (str_nat (status_code r) @ '' Client Error: '' @ reason r
                            @ '' for url: '' @ url r))
      else if 500 \<le> status_code r \<and> status_code r < 600
      then Inl (HTTPError (str_nat (status_code r) @ '' Server Error: '' @ reason r
                            @ '' for url: '' @ url r))
      else Inr ())"

text \<open>
  \<^verbatim>\<open>Response.json\<close>: since requests 2.27 the decoder's JSONDecodeError is
  re-raised as \<^verbatim>\<open>requests.exceptions.JSONDecodeError\<close>, a RequestException; older
  versions let it through, and it is a ValueError. A plain ValueError of the decoder is
  let through by every version. \<open>modern\<close> says which library is installed.
\<close>

definition response_json :: "bool \<Rightarrow> response \<Rightarrow> py_error + json" where
  "response_json modern r =
     (case body r of
        Inl (NotJSON m) \<Rightarrow> Inl (if modern then RequestsJSONDecodeError m else ValueError m)
      | Inl (IntTooLong m) \<Rightarrow> Inl (ValueError m)
      | Inr j \<Rightarrow> Inr j)"

text \<open>\<^verbatim>\<open>d.get('data', [])\<close>: only a dict has the method.\<close>

fun get_data :: "json \<Rightarrow> py_error + json" where
  "get_data (JObj kvs) = (case map_of kvs ''data'' of None \<Rightarrow> Inr (JArr []) | Some v \<Rightarrow> Inr v)"
| "get_data _ = Inl AttributeError"

text \<open>
  Iteration in the comprehension: a list gives its elements, a dict its keys, a string
  its characters; nothing else is iterable.
\<close>

fun py_iter :: "json \<Rightarrow> py_error + json list" where
  "py_iter (JArr xs) = Inr xs"
| "py_iter (JObj kvs) = Inr (map (\<lambda>kv. JStr (fst kv)) kvs)"
| "py_iter (JStr s) = Inr (map (\<lambda>c. JStr [c]) s)"
| "py_iter _ = Inl TypeError"

text \<open>\<^verbatim>\<open>strike[k]\<close> with a string key: KeyError on a dict without it, TypeError elsewhere.\<close>

fun subscript :: "json \<Rightarrow> string \<Rightarrow> py_error + json" where
  "subscript (JObj kvs) k = (case map_of kvs k of None \<Rightarrow> Inl (KeyError k) | Some v \<Rightarrow> Inr v)"
| "subscript _ k = Inl TypeError"

definition strike_within :: "(rat \<Rightarrow> rat) \<Rightarrow> json \<Rightarrow> py_error + bool" where
  "strike_within pw strike =
     bind_err (subscript strike ''latitude'') (\<lambda>lat.
     bind_err (subscript strike ''longitude'') (\<lambda>lon.
     is_within_radius pw lat lon))"

fun nearby :: "(rat \<Rightarrow> rat) \<Rightarrow> json list \<Rightarrow> py_error + json list" where
  "nearby pw [] = Inr []"
| "nearby pw (strike # rest) =
     bind_err (strike_within pw strike) (\<lambda>b.
     bind_err (nearby pw rest) (\<lambda>ns.
     Inr (if b then strike # ns else ns)))"

definition success_body :: "json list \<Rightarrow> json" where
  "success_body nearby_strikes =
     JObj [(''status'', JStr ''success''),
           (''report_for'', JStr ''Gimpo Airport (GMP)''),
           (''nearby_strikes_count'', JInt (int (length nearby_strikes))),
           (''strikes'', JArr nearby_strikes)]"

definition error_body :: "py_error \<Rightarrow> json" where
  "error_body e =
     JObj [(''status'', JStr ''error''),
           (''message'', JStr (''Failed to call KMA API: '' @ exc_text e))]"

text \<open>The body of the \<^verbatim>\<open>try\<close> block.\<close>

definition report_try :: "bool \<Rightarrow> (rat \<Rightarrow> rat) \<Rightarrow> kma_call \<Rightarrow> py_error + (nat \<times> json)" where
  "report_try modern pw call =
     (case call of
        Raises m \<Rightarrow> Inl (RequestException m)
      | Returns r \<Rightarrow>
          bind_err (raise_for_status r) (\<lambda>_.
          bind_err (response_json modern r) (\<lambda>j.
          bind_err (get_data j) (\<lambda>all_strikes.
          bind_err (py_iter all_strikes) (\<lambda>ss.
          bind_err (nearby pw ss) (\<lambda>nearby_strikes.
          Inr (200, success_body nearby_strikes)))))))"

text \<open>
  The endpoint: \<open>Inr (status, body)\<close> is the response it returns, \<open>Inl e\<close> an exception
  that leaves the view function.
\<close>

definition gmp_lightning_report :: "bool \<Rightarrow> (rat \<Rightarrow> rat) \<Rightarrow> kma_call \<Rightarrow> py_error + (nat \<times> json)" where
  "gmp_lightning_report modern pw call =
     (case report_try modern pw call of
        Inl e \<Rightarrow> if is_request_exception e then Inr (500, error_body e) else Inl e
      | Inr resp \<Rightarrow> Inr resp)"

section \<open>Random numbers\<close>

text \<open>
  Python's \<^verbatim>\<open>random\<close> module draws from the Mersenne Twister, whose C function
  \<^verbatim>\<open>genrand_uint32\<close> delivers one 32-bit word per call. The generator is modelled by
  the sequence of the words it is going to deliver; every call consumes the first one.
\<close>

type_synonym rng = "nat \<Rightarrow> 32 word"

definition genrand_uint32 :: "rng \<Rightarrow> 32 word \<times> rng" where
  "genrand_uint32 g = (g 0, \<lambda>i. g (Suc i))"

text \<open>
  \<^verbatim>\<open>getrandbits(k)\<close>, for \<open>0 < k\<close>: up to 32 bits are the high bits of one word;
  more bits are assembled from several words, the least significant word first, the last
  word shifted.
\<close>

fun getrandbits :: "nat \<Rightarrow> rng \<Rightarrow> nat \<times> rng" where
  "getrandbits k g =
     (if k \<le> 32 then (unat (drop_bit (32 - k) (g 0)), \<lambda>i. g (Suc i))
      else (let (r, g') = getrandbits (k - 32) (\<lambda>i. g (Suc i))
            in (unat (g 0) + 2 ^ 32 * r, g')))"

declare getrandbits.simps [simp del]

text \<open>
  \<^verbatim>\<open>_randbelow_with_getrandbits(n)\<close>, for \<open>0 < n\<close>: draw as many bits as \<open>n\<close> has,
  again and again until the value is below \<open>n\<close>. The loop has no bound: on a generator
  that never delivers an acceptable value it does not return, which is the value \<open>None\<close>.
\<close>

partial_function (option) randbelow_loop :: "nat \<Rightarrow> nat \<Rightarrow> nat \<times> rng \<Rightarrow> (nat \<times> rng) option" where
  "randbelow_loop n k rg =
     (if n \<le> fst rg then randbelow_loop n k (getrandbits k (snd rg)) else Some rg)"

definition randbelow :: "nat \<Rightarrow> rng \<Rightarrow> (nat \<times> rng) option" where
  "randbelow n g = (let k = floorlog 2 n in randbelow_loop n k (getrandbits k g))"

text \<open>
  \<^verbatim>\<open>randint(a, b)\<close> is \<^verbatim>\<open>randrange(a, b + 1)\<close>, which returns
  \<^verbatim>\<open>a + _randbelow(b + 1 - a)\<close> when that width is positive, as it is in every call of
  the source.
\<close>

definition randint :: "int \<Rightarrow> int \<Rightarrow> rng \<Rightarrow> (int \<times> rng) option" where
  "randint a b g =
     (case randbelow (nat (b + 1 - a)) g of
        None \<Rightarrow> None
      | Some (r, g') \<Rightarrow> Some (a + int r, g'))"

text \<open>
  \<^verbatim>\<open>random()\<close> takes 27 bits of one word and 26 of the next:
  \<^verbatim>\<open>(a*67108864.0+b)*(1.0/9007199254740992.0)\<close>. \<open>uniform a b\<close> is the library's
  \<^verbatim>\<open>a + (b - a) * self.random()\<close>.
\<close>

definition py_random :: "rng \<Rightarrow> rat \<times> rng" where
  "py_random g =
     (let (w1, g1) = genrand_uint32 g;
          (w2, g2) = genrand_uint32 g1;
          a = of_nat (unat (drop_bit 5 w1));
          b = of_nat (unat (drop_bit 6 w2))
      in (fmul (fadd (fmul a 67108864) b) (fdiv 1 9007199254740992), g2))"

definition uniform :: "rat \<Rightarrow> rat \<Rightarrow> rng \<Rightarrow> rat \<times> rng" where
  "uniform a b g = (let (u, g') = py_random g in (fadd a (fmul (fsub b a) u), g'))"

text \<open>
  \<^verbatim>\<open>round(x, ndigits)\<close> on a float: the exact value is rounded to \<open>ndigits\<close> decimal
  places, ties to even, and the decimal result is converted back to a float.
\<close>

definition py_round :: "rat \<Rightarrow> nat \<Rightarrow> rat" where
  "py_round x ndigits = rnd (of_int (round_half_even (x * 10 ^ ndigits)) / 10 ^ ndigits)"

definition str_int :: "int \<Rightarrow> string" where
  "str_int n = (if n < 0 then ''-'' @ str_nat (nat (- n)) else str_nat (nat n))"

section \<open>The random-number endpoint\<close>


section \<open>The strike simulator\<close>

text \<open>One iteration of the loop: the four draws in the order the source makes them.\<close>

definition make_strike :: "rng \<Rightarrow> (json \<times> rng) option" where
  "make_strike g =
     (let (lat_offset, g1) = uniform (- rnd (6 / 100)) (rnd (6 / 100)) g;
          (lon_offset, g2) = uniform (- rnd (6 / 100)) (rnd (6 / 100)) g1
      in case randint 1000 9999 g2 of
           None \<Rightarrow> None
         | Some (n, g3) \<Rightarrow>
             (case randint 10 100 g3 of
                None \<Rightarrow> None
              | Some (i, g4) \<Rightarrow>
                  Some (JObj [(''id'', JStr (''strike_'' @ str_int n)),
                              (''latitude'', JFloat (py_round (fadd GMP_LATITUDE lat_offset) 6)),
                              (''longitude'', JFloat (py_round (fadd GMP_LONGITUDE lon_offset) 6)),
                              (''intensity_kA'', JInt i)], g4)))"

fun make_strikes :: "nat \<Rightarrow> rng \<Rightarrow> (json list \<times> rng) option" where
  "make_strikes 0 g = Some ([], g)"
| "make_strikes (Suc k) g =
     (case make_strike g of
        None \<Rightarrow> None
      | Some (strike, g1) \<Rightarrow>
          (case make_strikes k g1 of
             None \<Rightarrow> None
           | Some (strikes, g2) \<Rightarrow> Some (strike # strikes, g2)))"

definition kma_lightning_simulator :: "rng \<Rightarrow> ((nat \<times> json) \<times> rng) option" where
  "kma_lightning_simulator g =
     (case randint 0 5 g of
        None \<Rightarrow> None
      | Some (num_strikes, g1) \<Rightarrow>
          (case make_strikes (nat num_strikes) g1 of
             None \<Rightarrow> None
           | Some (strikes, g2) \<Rightarrow>
               Some ((200, JObj [(''status'', JStr ''success''),
                                 (''source'', JStr ''KMA Virtual Lightning Detector''),
                                 (''data'', JArr strikes)]), g2)))"

section \<open>Notions used in the properties\<close>

text \<open>
  \<open>in_radius pw s\<close>: the comprehension's condition holds of the record \<open>s\<close>;
  \<open>evaluates pw s\<close>: the condition can be computed on \<open>s\<close> without an exception.
\<close>

definition in_radius :: "(rat \<Rightarrow> rat) \<Rightarrow> json \<Rightarrow> bool" where
  "in_radius pw s = (strike_within pw s = Inr True)"

definition evaluates :: "(rat \<Rightarrow> rat) \<Rightarrow> json \<Rightarrow> bool" where
  "evaluates pw s = (case strike_within pw s of Inl e \<Rightarrow> False | Inr b \<Rightarrow> True)"

text \<open>
  \<open>pow2_accurate pw\<close>: the C library's \<^verbatim>\<open>pow(x, 2.0)\<close> is within one unit in the
  last place of the square (with the absolute slack of the subnormal range).
\<close>

definition pow2_accurate :: "(rat \<Rightarrow> rat) \<Rightarrow> bool" where
  "pow2_accurate pw \<longleftrightarrow> (\<forall>x. \<bar>pw x - x * x\<bar> \<le> x * x / 2 ^ 52 + 1 / 2 ^ 1074)"

text \<open>
  \<open>strike_record s\<close>: a dict whose \<open>latitude\<close> and \<open>longitude\<close> are floats of
  magnitude at most \<open>10 ^ 150\<close>.
\<close>

fun float_coordinate :: "json \<Rightarrow> bool" where
  "float_coordinate (JFloat q) = (\<bar>q\<bar> \<le> 10 ^ 150)"
| "float_coordinate _ = False"

definition strike_record :: "json \<Rightarrow> bool" where
  "strike_record s =
     (case s of
        JObj kvs \<Rightarrow>
          (case map_of kvs ''latitude'' of
             Some lat \<Rightarrow>
               (case map_of kvs ''longitude'' of
                  Some lon \<Rightarrow> float_coordinate lat \<and> float_coordinate lon
                | None \<Rightarrow> False)
           | None \<Rightarrow> False)
      | _ \<Rightarrow> False)"

text \<open>A C library whose \<^verbatim>\<open>pow(x, 2.0)\<close> rounds correctly.\<close>

definition fsq :: "rat \<Rightarrow> rat" where
  "fsq x = rnd (x * x)"

text \<open>
  Concrete inputs: the record of the end-to-end example, a record north of the radius,
  a record with a latitude of \<open>1e200\<close>, and responses.
\<close>

definition example_strike :: json where
  "example_strike =
     JObj [(''latitude'', JFloat (rnd (37560 / 1000))),
           (''longitude'', JFloat (rnd (126795 / 1000))),
           (''intensity_kA'', JInt 50)]"

definition far_strike :: json where
  "far_strike =
     JObj [(''latitude'', JFloat (rnd (37700 / 1000))),
           (''longitude'', JFloat (rnd (126794 / 1000))),
           (''intensity_kA'', JInt 50)]"

definition huge_strike :: json where
  "huge_strike =
     JObj [(''latitude'', JFloat (rnd (10 ^ 200))),
           (''longitude'', JFloat (rnd (126794 / 1000))),
           (''intensity_kA'', JInt 50)]"

definition multiple_choices_response :: "json \<Rightarrow> response" where
  "multiple_choices_response j =
     \<lparr>status_code = 300, reason = ''MULTIPLE CHOICES'',
      url = ''http://localhost:5000/api/kma/lightning-strikes'', body = Inr j\<rparr>"

definition ok_response :: "json \<Rightarrow> response" where
  "ok_response j =
     \<lparr>status_code = 200, reason = ''OK'',
      url = ''http://localhost:5000/api/kma/lightning-strikes'', body = Inr j\<rparr>"

definition garbled_response :: response where
  "garbled_response =
     \<lparr>status_code = 200, reason = ''OK'',
      url = ''http://localhost:5000/api/kma/lightning-strikes'',
      body = Inl (NotJSON ''Expecting value: line 1 column 1 (char 0)'')\<rparr>"

definition not_found_response :: response where
  "not_found_response =
     \<lparr>status_code = 404, reason = ''NOT FOUND'',
      url = ''http://localhost:5000/api/kma/lightning-strikes'',
      body = Inl (NotJSON ''Expecting value: line 1 column 1 (char 0)'')\<rparr>"

text \<open>
  Generators. \<open>advance i g\<close> is the generator \<open>g\<close> after \<open>i\<close> words have been
  consumed; \<open>fair g\<close>: the generator delivers a word with a clear top bit again and again
  (such a word is accepted by every draw \<^verbatim>\<open>_randbelow(n)\<close> with \<open>n < 2 ^ 32\<close>);
  \<open>from_words ws\<close> delivers the words of the list, then zeros.
\<close>

definition advance :: "nat \<Rightarrow> rng \<Rightarrow> rng" where
  "advance i g = (\<lambda>j. g (i + j))"

definition fair :: "rng \<Rightarrow> bool" where
  "fair g \<longleftrightarrow> (\<forall>i. \<exists>j. i \<le> j \<and> unat (g j) < 2 ^ 31)"

definition from_words :: "32 word list \<Rightarrow> rng" where
  "from_words ws = (\<lambda>i. if i < length ws then ws ! i else 0)"

text \<open>
  The record the simulator builds from a number, two offsets and an intensity, and the
  body of its response.
\<close>

definition simulated_strike :: "int \<Rightarrow> rat \<Rightarrow> rat \<Rightarrow> int \<Rightarrow> json" where
  "simulated_strike n lat_offset lon_offset i =
     JObj [(''id'', JStr (''strike_'' @ str_int n)),
           (''latitude'', JFloat (py_round (fadd GMP_LATITUDE lat_offset) 6)),
           (''longitude'', JFloat (py_round (fadd GMP_LONGITUDE lon_offset) 6)),
           (''intensity_kA'', JInt i)]"

definition simulator_body :: "json list \<Rightarrow> json" where
  "simulator_body strikes =
     JObj [(''status'', JStr ''success''),
           (''source'', JStr ''KMA Virtual Lightning Detector''),
           (''data'', JArr strikes)]"

text \<open>
  \<open>offset x\<close>: the float \<open>x\<close> lies between the floats \<open>-0.06\<close> and \<open>0.06\<close>.
  \<open>in_band x centre\<close>: the float \<open>x\<close> lies between the floats nearest to
  \<open>centre - 0.06\<close> and \<open>centre + 0.06\<close>, and within \<open>0.06 + 1e-14\<close> of \<open>centre\<close>.
\<close>

definition offset :: "rat \<Rightarrow> bool" where
  "offset x \<longleftrightarrow> - rnd (6 / 100) \<le> x \<and> x \<le> rnd (6 / 100)"

definition in_band :: "rat \<Rightarrow> rat \<Rightarrow> bool" where
  "in_band x centre \<longleftrightarrow>
     rnd (centre - 6 / 100) \<le> x \<and> x \<le> rnd (centre + 6 / 100) \<and>
     \<bar>x - centre\<bar> \<le> 6 / 100 + 1 / 10 ^ 14"



definition top_rng :: rng where
  "top_rng = from_words
     [0x20000000,
      0xFFFFFFFF, 0xFFFFFFFF, 0x80000000, 0, 0x32A80000, 0x50000000]"

section \<open>Properties of rounding\<close>

text \<open>
  Rounding is monotone, commutes with negation, and is off by at most half a unit in the
  last place. \<open>rnd_eqI\<close> and \<open>rnd_eqI_tie\<close> check a rounded value from its exponent
  and significand.
\<close>

lemma rhe_cases:
  "round_half_even q = \<lfloor>q\<rfloor> \<or> round_half_even q = \<lfloor>q\<rfloor> + 1"
  by (simp add: round_half_even_def Let_def)

lemma rhe_of_int [simp]: "round_half_even (of_int n) = n"
  by (simp add: round_half_even_def Let_def)

lemma rhe_error: "\<bar>of_int (round_half_even q) - q\<bar> \<le> 1/2"
proof -
  have "of_int \<lfloor>q\<rfloor> \<le> q" "q < of_int \<lfloor>q\<rfloor> + 1" by linarith+
  then show ?thesis
    by (auto simp: round_half_even_def Let_def abs_le_iff)
qed

lemma rhe_eqI: "\<bar>q - of_int m\<bar> < 1/2 \<Longrightarrow> round_half_even q = m"
proof -
  assume a: "\<bar>q - of_int m\<bar> < 1/2"
  have e: "\<bar>of_int (round_half_even q) - q\<bar> \<le> 1/2" by (rule rhe_error)
  from a e have "\<bar>(of_int (round_half_even q) :: rat) - of_int m\<bar> < 1" by linarith
  then have "\<bar>(of_int (round_half_even q - m) :: rat)\<bar> < 1" by simp
  then have "\<bar>round_half_even q - m\<bar> < 1"
    by (metis of_int_abs of_int_less_1_iff)
  then show ?thesis by linarith
qed

lemma rhe_mono: "x \<le> y \<Longrightarrow> round_half_even x \<le> round_half_even y"
proof -
  assume xy: "x \<le> y"
  then have fl: "\<lfloor>x\<rfloor> \<le> \<lfloor>y\<rfloor>" by (rule floor_mono)
  show ?thesis
  proof (cases "\<lfloor>x\<rfloor> = \<lfloor>y\<rfloor>")
    case True
    with xy show ?thesis
      by (auto simp: round_half_even_def Let_def)
  next
    case False
    with fl have "\<lfloor>x\<rfloor> + 1 \<le> \<lfloor>y\<rfloor>" by simp
    moreover have "round_half_even x \<le> \<lfloor>x\<rfloor> + 1" using rhe_cases [of x] by auto
    moreover have "\<lfloor>y\<rfloor> \<le> round_half_even y" using rhe_cases [of y] by auto
    ultimately show ?thesis by linarith
  qed
qed

lemma rhe_minus: "round_half_even (- q) = - round_half_even q"
proof (cases "q = of_int \<lfloor>q\<rfloor>")
  case True
  then obtain n where "q = of_int n" ..
  then have "- q = of_int (- n)" by simp
  then show ?thesis using \<open>q = of_int n\<close> by (metis rhe_of_int)
next
  case False
  then have lt: "of_int \<lfloor>q\<rfloor> < q" by (metis of_int_floor_le order_less_le)
  have up: "q < of_int \<lfloor>q\<rfloor> + 1" by linarith
  have fm: "\<lfloor>- q\<rfloor> = - \<lfloor>q\<rfloor> - 1"
    using lt up by (intro floor_unique) auto
  show ?thesis
    using lt up by (auto simp: round_half_even_def Let_def fm)
qed

lemma two_powi_bitlen:
  assumes "0 < a"
  shows "(2::rat) powi (bitlen a - 1) \<le> of_int a" "(of_int a :: rat) < 2 powi bitlen a"
proof -
  from assms have b1: "1 \<le> bitlen a" by (auto simp: bitlen_alt_def)
  from bitlen_bounds [OF assms] have lo: "2 ^ nat (bitlen a - 1) \<le> a" and hi: "a < 2 ^ nat (bitlen a)"
    by auto
  from lo have "(of_int (2 ^ nat (bitlen a - 1)) :: rat) \<le> of_int a" by (simp only: of_int_le_iff)
  then show "(2::rat) powi (bitlen a - 1) \<le> of_int a"
    using b1 by (simp add: power_int_def)
  from hi have "(of_int a :: rat) < of_int (2 ^ nat (bitlen a))" by (simp only: of_int_less_iff)
  then show "(of_int a :: rat) < 2 powi bitlen a"
    using b1 by (simp add: power_int_def)
qed

lemma ilog2_bounds:
  assumes "q \<noteq> 0"
  shows "2 powi ilog2 q \<le> \<bar>q\<bar>" "\<bar>q\<bar> < 2 powi (ilog2 q + 1)"
proof -
  obtain a b where ab: "quotient_of \<bar>q\<bar> = (a, b)" by (cases "quotient_of \<bar>q\<bar>")
  then have b: "0 < b" by (rule quotient_of_denom_pos)
  from ab have q: "\<bar>q\<bar> = of_int a / of_int b" by (rule quotient_of_div)
  from assms have "0 < \<bar>q\<bar>" by simp
  with q b have a: "0 < a" by (simp add: zero_less_divide_iff)
  let ?d = "bitlen a - bitlen b"
  note A = two_powi_bitlen [OF a]
  note B = two_powi_bitlen [OF b]
  have bpos: "(0::rat) < of_int b" using b by simp
  have up: "\<bar>q\<bar> < 2 powi (?d + 1)"
  proof -
    have "of_int a < (2::rat) powi bitlen a" by (rule A)
    also have "\<dots> = 2 powi (?d + 1) * 2 powi (bitlen b - 1)"
      by (simp add: power_int_add [symmetric])
    also have "\<dots> \<le> 2 powi (?d + 1) * of_int b"
      using B(1) by (intro mult_left_mono) auto
    finally show ?thesis using bpos by (simp add: q pos_divide_less_eq)
  qed
  have lo: "2 powi (?d - 1) \<le> \<bar>q\<bar>"
  proof -
    have "(2::rat) powi (?d - 1) * of_int b \<le> 2 powi (?d - 1) * 2 powi bitlen b"
      using B(2) by (intro mult_left_mono) auto
    also have "\<dots> = 2 powi (bitlen a - 1)"
      by (simp add: power_int_add [symmetric])
    also have "\<dots> \<le> of_int a" by (rule A)
    finally show ?thesis using bpos by (simp add: q pos_le_divide_eq)
  qed
  have il: "ilog2 q = (if 2 powi ?d \<le> \<bar>q\<bar> then ?d else ?d - 1)"
    by (simp add: ilog2_def ab)
  show "2 powi ilog2 q \<le> \<bar>q\<bar>" using lo by (simp add: il)
  show "\<bar>q\<bar> < 2 powi (ilog2 q + 1)" using up by (auto simp: il not_le)
qed

lemma two_powi_less_iff: "(2::rat) powi m < 2 powi n \<longleftrightarrow> m < n"
  by (metis not_less_iff_gr_or_eq numeral_One numeral_less_iff one_less_numeral_iff power_int_strict_increasing semiring_norm(76))

lemma two_powi_le_iff: "(2::rat) powi m \<le> 2 powi n \<longleftrightarrow> m \<le> n"
  by (metis two_powi_less_iff not_le)

lemma ilog2_unique:
  assumes "2 powi k \<le> \<bar>q\<bar>" and "\<bar>q\<bar> < 2 powi (k + 1)"
  shows "ilog2 q = k"
proof -
  from assms(1) have "0 < \<bar>q\<bar>"
    by (meson less_le_trans zero_less_numeral zero_less_power_int)
  then have q: "q \<noteq> 0" by simp
  note I = ilog2_bounds [OF q]
  from I(1) assms(2) have "(2::rat) powi ilog2 q < 2 powi (k + 1)" by (rule le_less_trans)
  then have 1: "ilog2 q < k + 1" by (simp add: two_powi_less_iff)
  from assms(1) I(2) have "(2::rat) powi k < 2 powi (ilog2 q + 1)" by (rule le_less_trans)
  then have 2: "k < ilog2 q + 1" by (simp add: two_powi_less_iff)
  from 1 2 show ?thesis by simp
qed

lemma ilog2_minus [simp]: "ilog2 (- q) = ilog2 q"
  by (simp add: ilog2_def)

lemma ilog2_mono:
  assumes "0 < \<bar>x\<bar>" and "\<bar>x\<bar> \<le> \<bar>y\<bar>"
  shows "ilog2 x \<le> ilog2 y"
proof -
  from assms have x: "x \<noteq> 0" and y: "y \<noteq> 0" by auto
  have "(2::rat) powi ilog2 x \<le> \<bar>x\<bar>" by (rule ilog2_bounds [OF x])
  also note assms(2)
  also have "\<bar>y\<bar> < 2 powi (ilog2 y + 1)" by (rule ilog2_bounds [OF y])
  finally show ?thesis by (simp add: two_powi_less_iff)
qed

lemma ulp_exp_minus [simp]: "ulp_exp (- q) = ulp_exp q"
  by (simp add: ulp_exp_def)

lemma rnd_minus: "rnd (- q) = - rnd q"
  by (simp add: rnd_def rhe_minus)

lemma rnd_0 [simp]: "rnd 0 = 0"
  by (simp add: rnd_def)

lemma two_powi_pos [simp]: "(0::rat) < 2 powi e"
  by simp

lemma ulp_exp_upper:
  assumes "q \<noteq> 0"
  shows "\<bar>q\<bar> < 2 powi (ulp_exp q + 53)"
proof -
  have "\<bar>q\<bar> < 2 powi (ilog2 q + 1)" by (rule ilog2_bounds [OF assms])
  also have "\<dots> \<le> 2 powi (ulp_exp q + 53)"
    by (simp add: two_powi_le_iff ulp_exp_def)
  finally show ?thesis .
qed

lemma ulp_exp_lower:
  assumes "q \<noteq> 0" and "- 1074 < ulp_exp q"
  shows "2 powi (ulp_exp q + 52) \<le> \<bar>q\<bar>"
proof -
  from assms(2) have "ulp_exp q = ilog2 q - 52" by (simp add: ulp_exp_def max_def split: if_splits)
  then have "ulp_exp q + 52 = ilog2 q" by simp
  then show ?thesis using ilog2_bounds(1) [OF assms(1)] by simp
qed

lemma ulp_exp_mono:
  assumes "0 < \<bar>x\<bar>" and "\<bar>x\<bar> \<le> \<bar>y\<bar>"
  shows "ulp_exp x \<le> ulp_exp y"
  using ilog2_mono [OF assms] by (simp add: ulp_exp_def)

lemma scale_div: "q / 2 powi e * 2 powi e = (q::rat)"
  by simp

lemma rnd_mono_pos:
  assumes "0 < x" and "x \<le> y"
  shows "rnd x \<le> rnd y"
proof -
  from assms have y: "0 < y" and x0: "x \<noteq> 0" and y0: "y \<noteq> 0" by auto
  let ?ex = "ulp_exp x" and ?ey = "ulp_exp y"
  from assms have exy: "?ex \<le> ?ey" by (intro ulp_exp_mono) auto
  have rx: "rnd x = of_int (round_half_even (x / 2 powi ?ex)) * 2 powi ?ex"
    using x0 by (simp add: rnd_def)
  have ry: "rnd y = of_int (round_half_even (y / 2 powi ?ey)) * 2 powi ?ey"
    using y0 by (simp add: rnd_def)
  show ?thesis
  proof (cases "?ex = ?ey")
    case True
    have "x / 2 powi ?ey \<le> y / 2 powi ?ey"
      using assms(2) by (simp add: divide_right_mono)
    then have "round_half_even (x / 2 powi ?ey) \<le> round_half_even (y / 2 powi ?ey)"
      by (rule rhe_mono)
    then show ?thesis
      unfolding rx ry True by (intro mult_right_mono) auto
  next
    case False
    with exy have lt: "?ex < ?ey" by simp
    have ge: "- 1074 \<le> ?ex" by (simp add: ulp_exp_def)
    with lt have "- 1074 < ?ey" by simp
    from ulp_exp_lower [OF y0 this] y have ylow: "2 powi (?ey + 52) \<le> y" by simp
    have "(2::rat) powi 52 * 2 powi ?ey \<le> y"
      using ylow by (simp add: power_int_add)
    then have "(2::rat) ^ 52 \<le> y / 2 powi ?ey"
      by (simp add: pos_le_divide_eq)
    then have "round_half_even (of_int (2 ^ 52)) \<le> round_half_even (y / 2 powi ?ey)"
      by (intro rhe_mono) simp
    then have my: "2 ^ 52 \<le> round_half_even (y / 2 powi ?ey)" by (simp only: rhe_of_int)
    have "(2::rat) powi (?ey + 52) = of_int (2 ^ 52) * 2 powi ?ey"
      by (simp add: power_int_add)
    also have "\<dots> \<le> of_int (round_half_even (y / 2 powi ?ey)) * 2 powi ?ey"
      using my by (intro mult_right_mono) (simp_all only: of_int_le_iff zero_le_power_int zero_le_numeral)
    finally have ybig: "2 powi (?ey + 52) \<le> rnd y" by (simp only: ry)
    from ulp_exp_upper [OF x0] assms(1) have "x < 2 powi (?ex + 53)" by simp
    then have "x < 2 powi 53 * 2 powi ?ex" by (simp add: power_int_add)
    then have "x / 2 powi ?ex \<le> 2 ^ 53"
      by (simp add: pos_divide_le_eq)
    then have "round_half_even (x / 2 powi ?ex) \<le> round_half_even (of_int (2 ^ 53))"
      by (intro rhe_mono) simp
    then have mx: "round_half_even (x / 2 powi ?ex) \<le> 2 ^ 53" by (simp only: rhe_of_int)
    have "rnd x \<le> of_int (2 ^ 53) * 2 powi ?ex"
      unfolding rx using mx
      by (intro mult_right_mono) (simp_all only: of_int_le_iff zero_le_power_int zero_le_numeral)
    also have "\<dots> = 2 powi (?ex + 53)" by (simp add: power_int_add)
    also have "\<dots> \<le> 2 powi (?ey + 52)" using lt by (simp add: two_powi_le_iff)
    finally show ?thesis using ybig by simp
  qed
qed

lemma rnd_nonneg: "0 \<le> q \<Longrightarrow> 0 \<le> rnd q"
proof -
  assume "0 \<le> q"
  then have "0 \<le> q / 2 powi ulp_exp q" by simp
  then have "round_half_even 0 \<le> round_half_even (q / 2 powi ulp_exp q)" by (rule rhe_mono)
  then have "0 \<le> round_half_even (q / 2 powi ulp_exp q)"
    by (simp add: round_half_even_def)
  then show ?thesis by (simp add: rnd_def)
qed

lemma rnd_mono: "x \<le> y \<Longrightarrow> rnd x \<le> rnd y"
proof -
  assume xy: "x \<le> y"
  consider "0 < x" | "x \<le> 0" "0 \<le> y" | "y < 0" using xy by linarith
  then show ?thesis
  proof cases
    case 1
    then show ?thesis using xy by (rule rnd_mono_pos)
  next
    case 2
    from 2(1) have "0 \<le> rnd (- x)" by (intro rnd_nonneg) simp
    then have "rnd x \<le> 0" by (simp add: rnd_minus)
    also have "0 \<le> rnd y" using 2(2) by (rule rnd_nonneg)
    finally show ?thesis .
  next
    case 3
    then have "0 < - y" "- y \<le> - x" using xy by auto
    then have "rnd (- y) \<le> rnd (- x)" by (rule rnd_mono_pos)
    then show ?thesis by (simp add: rnd_minus)
  qed
qed

lemma rnd_eqI:
  assumes "2 powi (e + 52) \<le> \<bar>q\<bar>" and "\<bar>q\<bar> < 2 powi (e + 53)" and "- 1074 \<le> e"
    and "\<bar>q / 2 powi e - of_int m\<bar> < 1/2" and "v = of_int m * 2 powi e"
  shows "rnd q = v"
proof -
  from assms(1) have "0 < \<bar>q\<bar>"
    by (meson less_le_trans zero_less_numeral zero_less_power_int)
  then have q: "q \<noteq> 0" by simp
  have "ilog2 q = e + 52"
    using assms(1,2) by (intro ilog2_unique) (simp_all add: add.commute add.left_commute)
  then have "ulp_exp q = e" using assms(3) by (simp add: ulp_exp_def)
  moreover have "round_half_even (q / 2 powi e) = m" using assms(4) by (rule rhe_eqI)
  ultimately show ?thesis using q assms(5) by (simp add: rnd_def)
qed

lemma rnd_error_ulp:
  "\<bar>rnd q - q\<bar> \<le> 2 powi ulp_exp q / 2"
proof (cases "q = 0")
  case True
  then show ?thesis by simp
next
  case False
  let ?e = "ulp_exp q"
  let ?m = "round_half_even (q / 2 powi ?e)"
  have "rnd q - q = (of_int ?m - q / 2 powi ?e) * 2 powi ?e"
    using False by (simp add: rnd_def algebra_simps)
  then have "\<bar>rnd q - q\<bar> = \<bar>of_int ?m - q / 2 powi ?e\<bar> * 2 powi ?e"
    by (simp add: abs_mult)
  also have "\<dots> \<le> 1/2 * 2 powi ?e"
    by (intro mult_right_mono rhe_error) simp
  finally show ?thesis by simp
qed

lemma rnd_error:
  "\<bar>rnd q - q\<bar> \<le> \<bar>q\<bar> / 2 ^ 53 + 1 / 2 ^ 1075"
proof (cases "q = 0")
  case True
  then show ?thesis by simp
next
  case False
  let ?e = "ulp_exp q"
  have ge: "- 1074 \<le> ?e" by (simp add: ulp_exp_def)
  have "2 powi ?e / 2 \<le> \<bar>q\<bar> / 2 ^ 53 + 1 / 2 ^ 1075"
  proof (cases "?e = - 1074")
    case True
    have "(2::rat) powi (- 1074) / 2 = 1 / 2 ^ 1075"
      by (simp add: power_int_minus_divide)
    moreover have "0 \<le> \<bar>q\<bar> / 2 ^ 53" by simp
    ultimately show ?thesis unfolding True by linarith
  next
    case False
    with ge have "- 1074 < ?e" by simp
    from ulp_exp_lower [OF \<open>q \<noteq> 0\<close> this] have "2 powi ?e * 2 ^ 52 \<le> \<bar>q\<bar>"
      by (simp add: power_int_add)
    then have "2 powi ?e / 2 \<le> \<bar>q\<bar> / 2 ^ 53" by simp
    then show ?thesis by (simp add: add_increasing2)
  qed
  with rnd_error_ulp [of q] show ?thesis by linarith
qed

lemma rhe_eqI_tie:
  assumes "\<bar>q - of_int m\<bar> = 1/2" and "even m"
  shows "round_half_even q = m"
proof -
  from assms(1) consider "q = of_int m + 1/2" | "q = of_int m - 1/2" by (auto simp: abs_if split: if_splits)
  then show ?thesis
  proof cases
    case 1
    then have "\<lfloor>q\<rfloor> = m" by (intro floor_unique) auto
    then show ?thesis using 1 assms(2) by (simp add: round_half_even_def Let_def)
  next
    case 2
    then have f: "\<lfloor>q\<rfloor> = m - 1" by (intro floor_unique) auto
    have "q - of_int (m - 1) = 1/2" using 2 by simp
    then show ?thesis using assms(2) by (simp add: round_half_even_def Let_def f)
  qed
qed

lemma rnd_eqI_tie:
  assumes "2 powi (e + 52) \<le> \<bar>q\<bar>" and "\<bar>q\<bar> < 2 powi (e + 53)" and "- 1074 \<le> e"
    and "\<bar>q / 2 powi e - of_int m\<bar> = 1/2" and "even m" and "v = of_int m * 2 powi e"
  shows "rnd q = v"
proof -
  from assms(1) have "0 < \<bar>q\<bar>"
    by (meson less_le_trans zero_less_numeral zero_less_power_int)
  then have q: "q \<noteq> 0" by simp
  have "ilog2 q = e + 52"
    using assms(1,2) by (intro ilog2_unique) (simp_all add: add.commute add.left_commute)
  then have "ulp_exp q = e" using assms(3) by (simp add: ulp_exp_def)
  moreover have "round_half_even (q / 2 powi e) = m" using assms(4,5) by (rule rhe_eqI_tie)
  ultimately show ?thesis using q assms(6) by (simp add: rnd_def)
qed

text \<open>The constants of the source as binary64 values.\<close>

lemma GMP_LATITUDE_value: "GMP_LATITUDE = 5285818587649409 / 140737488355328"
  unfolding GMP_LATITUDE_def
  by (rule rnd_eqI [where e = "- 47" and m = "5285818587649409"]) (simp_all add: power_int_minus)

lemma GMP_LONGITUDE_value: "GMP_LONGITUDE = 8922334549262729 / 70368744177664"
  unfolding GMP_LONGITUDE_def
  by (rule rnd_eqI [where e = "- 46" and m = "8922334549262729"]) (simp_all add: power_int_minus)

lemma deg_per_km_value: "deg_per_km = 5193340110841653 / 576460752303423488"
  unfolding deg_per_km_def fdiv_def
  by (rule rnd_eqI [where e = "- 59" and m = "5193340110841653"]) (simp_all add: power_int_minus)

lemma radius_in_deg_value: "radius_in_deg = 3245837569276033 / 72057594037927936"
  unfolding radius_in_deg_def fmul_def deg_per_km_value MONITORING_RADIUS_KM_def
  by (rule rnd_eqI [where e = "- 57" and m = "6491675138552066"]) (simp_all add: power_int_minus)

lemma fsq_radius_in_deg: "fsq radius_in_deg = 4678684784542029 / 2305843009213693952"
  unfolding fsq_def radius_in_deg_value
  by (rule rnd_eqI [where e = "- 61" and m = "4678684784542029"]) (simp_all add: power_int_minus)

lemma rnd_exact:
  assumes "\<bar>m\<bar> < 2 ^ 53" and "- 1074 \<le> e"
  shows "rnd (of_int m * 2 powi e) = of_int m * 2 powi e"
proof (cases "m = 0")
  case True
  then show ?thesis by simp
next
  case False
  define q :: rat where "q = of_int m * 2 powi e"
  have q0: "q \<noteq> 0"
    using False by (simp add: q_def)
  have "\<bar>of_int m :: rat\<bar> < 2 ^ 53"
    using assms(1) by (metis of_int_abs of_int_less_numeral_power_cancel_iff)
  then have "\<bar>of_int m :: rat\<bar> * 2 powi e < 2 ^ 53 * 2 powi e"
    by (intro mult_strict_right_mono) simp_all
  also have "\<dots> = 2 powi (e + 53)"
    by (simp add: power_int_add)
  finally have "\<bar>q\<bar> < 2 powi (e + 53)"
    by (simp add: q_def abs_mult)
  with ilog2_bounds(1) [OF q0] have "(2::rat) powi ilog2 q < 2 powi (e + 53)"
    by (rule le_less_trans)
  then have "ilog2 q < e + 53"
    by (simp add: two_powi_less_iff)
  with assms(2) have u: "ulp_exp q \<le> e"
    by (simp add: ulp_exp_def)
  define d where "d = nat (e - ulp_exp q)"
  define p :: rat where "p = 2 powi ulp_exp q"
  have p: "0 < p"
    by (simp add: p_def)
  have "e = ulp_exp q + int d"
    using u by (simp add: d_def)
  then have "(2::rat) powi e = 2 powi (ulp_exp q + int d)"
    by simp
  also have "\<dots> = p * 2 ^ d"
    by (simp add: power_int_add p_def)
  finally have qp: "q = of_int (m * 2 ^ d) * p"
    by (simp add: q_def)
  then have "q / p = of_int (m * 2 ^ d)"
    using p by simp
  then have "rnd q = of_int (m * 2 ^ d) * p"
    using q0 unfolding rnd_def p_def by (simp only: rhe_of_int if_False)
  with qp have "rnd q = q"
    by simp
  then show ?thesis
    by (simp add: q_def)
qed

lemma rnd_exact_nat: "n < 2 ^ 53 \<Longrightarrow> rnd (of_nat n) = of_nat n"
  using rnd_exact [of "int n" 0] by simp

section \<open>Properties of the filter\<close>

lemma nearby_filter:
  "list_all (evaluates pw) ss \<Longrightarrow> nearby pw ss = Inr (filter (in_radius pw) ss)"
  by (induction ss) (auto simp: evaluates_def in_radius_def split: sum.splits)

lemma nearby_Inr_evaluates:
  "nearby pw ss = Inr ns \<Longrightarrow> list_all (evaluates pw) ss"
proof (induction ss arbitrary: ns)
  case Nil
  then show ?case by simp
next
  case (Cons s ss)
  from Cons.prems obtain b where b: "strike_within pw s = Inr b"
    by (cases "strike_within pw s") auto
  with Cons.prems obtain ms where ms: "nearby pw ss = Inr ms"
    by (cases "nearby pw ss") auto
  from b have "evaluates pw s" by (simp add: evaluates_def)
  with Cons.IH [OF ms] show ?case by simp
qed

lemma in_radius_evaluates: "in_radius pw s \<Longrightarrow> evaluates pw s"
  by (simp add: in_radius_def evaluates_def)

lemma nearby_raises:
  "list_all (evaluates pw) pre \<Longrightarrow> strike_within pw s = Inl e \<Longrightarrow>
   nearby pw (pre @ s # rest) = Inl e"
  by (induction pre) (auto simp: evaluates_def split: sum.splits)

lemma bind_err_Inl:
  "bind_err m f = Inl e \<longleftrightarrow> m = Inl e \<or> (\<exists>x. m = Inr x \<and> f x = Inl e)"
  by (cases m) auto

lemma bind_err_Inr:
  "bind_err m f = Inr y \<longleftrightarrow> (\<exists>x. m = Inr x \<and> f x = Inr y)"
  by (cases m) auto

lemma subscript_raises: "subscript s k = Inl e \<Longrightarrow> \<not> is_request_exception e"
  by (cases s) (auto split: option.splits)

lemma as_float_raises: "as_float v = Inl e \<Longrightarrow> \<not> is_request_exception e"
  by (cases v) (auto simp: int_to_float_def split: if_splits)

lemma py_pow2_raises: "py_pow2 pw x = Inl e \<Longrightarrow> \<not> is_request_exception e"
  by (auto simp: py_pow2_def split: if_splits)

lemma is_within_radius_raises:
  "is_within_radius pw lat lon = Inl e \<Longrightarrow> \<not> is_request_exception e"
  unfolding is_within_radius_def bind_err_Inl
  by (auto dest: as_float_raises py_pow2_raises)

lemma strike_within_raises:
  "strike_within pw s = Inl e \<Longrightarrow> \<not> is_request_exception e"
  unfolding strike_within_def bind_err_Inl
  by (auto dest: subscript_raises is_within_radius_raises)

lemma nearby_raises_no_request_exception:
  "nearby pw ss = Inl e \<Longrightarrow> \<not> is_request_exception e"
proof (induction ss)
  case Nil
  then show ?case by simp
next
  case (Cons s ss)
  then show ?case
    by (auto simp: bind_err_Inl dest: strike_within_raises split: if_splits)
qed

lemma report_try_2xx:
  "200 \<le> status_code r \<Longrightarrow> status_code r < 300 \<Longrightarrow>
   report_try modern pw (Returns r) =
     bind_err (response_json modern r) (\<lambda>j.
     bind_err (get_data j) (\<lambda>all_strikes.
     bind_err (py_iter all_strikes) (\<lambda>ss.
     bind_err (nearby pw ss) (\<lambda>nearby_strikes.
     Inr (200, success_body nearby_strikes)))))"
  by (simp add: report_try_def raise_for_status_def)

lemma report_2xx_list:
  assumes "200 \<le> status_code r" "status_code r < 300"
    and "body r = Inr (JObj kvs)" "map_of kvs ''data'' = Some (JArr ss)"
  shows "gmp_lightning_report modern pw (Returns r) =
     (case nearby pw ss of Inl e \<Rightarrow> Inl e | Inr ns \<Rightarrow> Inr (200, success_body ns))"
proof -
  have "report_try modern pw (Returns r) =
      bind_err (nearby pw ss) (\<lambda>ns. Inr (200, success_body ns))"
    using assms by (simp add: report_try_2xx response_json_def)
  moreover have "\<not> is_request_exception e" if "nearby pw ss = Inl e" for e
    using that by (rule nearby_raises_no_request_exception)
  ultimately show ?thesis
    by (cases "nearby pw ss") (simp_all add: gmp_lightning_report_def)
qed

lemma example_latitude_value: "rnd (37560 / 1000) = 660762507828265 / 17592186044416"
  by (rule rnd_eqI [where e = "- 47" and m = "5286100062626120"]) (simp_all add: power_int_minus)

lemma example_longitude_value: "rnd (126795 / 1000) = 8922404918006907 / 70368744177664"
  by (rule rnd_eqI [where e = "- 46" and m = "8922404918006907"]) (simp_all add: power_int_minus)

lemma far_latitude_value: "rnd (37700 / 1000) = 2652901655497933 / 70368744177664"
  by (rule rnd_eqI [where e = "- 47" and m = "5305803310995866"]) (simp_all add: power_int_minus)

lemma huge_latitude_value: "rnd (10 ^ 200) = 99999999999999996973312221251036165947450327545502362648241750950346848435554075534196338404706251868027512415973882408182135734368278484639385041047239877871023591066789981811181813306167128854888448"
  by (rule rnd_eqI [where e = "612" and m = "5883593420661338"]) (simp_all add: power_int_minus)

lemma far_strike_not_in_radius: "strike_within fsq far_strike = Inr False"
proof -
  have x: "fsub (2652901655497933 / 70368744177664) (5285818587649409 / 140737488355328) = 19984723346457 / 140737488355328"
    unfolding fsub_def
    by (rule rnd_eqI [where e = "- 55" and m = "5116089176692992"]) (simp_all add: power_int_minus)
  have xx: "fsq (19984723346457 / 140737488355328) = 2905938652361681 / 144115188075855872"
    unfolding fsq_def
    by (rule rnd_eqI [where e = "- 58" and m = "5811877304723362"]) (simp_all add: power_int_minus)
  have y: "fsub (8922334549262729 / 70368744177664) (8922334549262729 / 70368744177664) = 0"
    unfolding fsub_def by simp
  have yy: "fsq 0 = 0"
    unfolding fsq_def by simp
  have s: "fadd (2905938652361681 / 144115188075855872) 0 = 2905938652361681 / 144115188075855872"
    unfolding fadd_def
    by (rule rnd_eqI [where e = "- 58" and m = "5811877304723362"]) (simp_all add: power_int_minus)
  show ?thesis
    unfolding strike_within_def far_strike_def far_latitude_value is_within_radius_def
      GMP_LATITUDE_value GMP_LONGITUDE_value GMP_LONGITUDE_value [unfolded GMP_LONGITUDE_def]
    by (simp add: py_pow2_def float_max_bound_def x y xx yy s fsq_radius_in_deg)
qed

lemma huge_strike_overflows: "strike_within fsq huge_strike = Inl OverflowError"
proof -
  have x: "fsub (99999999999999996973312221251036165947450327545502362648241750950346848435554075534196338404706251868027512415973882408182135734368278484639385041047239877871023591066789981811181813306167128854888448) (5285818587649409 / 140737488355328) = 99999999999999996973312221251036165947450327545502362648241750950346848435554075534196338404706251868027512415973882408182135734368278484639385041047239877871023591066789981811181813306167128854888448"
    unfolding fsub_def
    by (rule rnd_eqI [where e = "612" and m = "5883593420661338"]) (simp_all add: power_int_minus)
  have xx: "fsq (99999999999999996973312221251036165947450327545502362648241750950346848435554075534196338404706251868027512415973882408182135734368278484639385041047239877871023591066789981811181813306167128854888448) = 9999999999999999691550493561944537575641946652687549855580411903768046411383593100799525310689809461184425066994361449609908592443972525594106031327349935793098204530004254988546345018724518718930376359868727193322283409018700059618780809084403207752232427328950404759314493288107743195272314733078980589968399848874202467633974208190486062579991087844231044363473908519828604816881191888905335472128"
    unfolding fsq_def
    by (rule rnd_eqI [where e = "1276" and m = "7686445155841023"]) (simp_all add: power_int_minus)
  show ?thesis
    unfolding strike_within_def huge_strike_def huge_latitude_value is_within_radius_def
      GMP_LATITUDE_value GMP_LONGITUDE_value GMP_LONGITUDE_value [unfolded GMP_LONGITUDE_def]
    by (simp add: py_pow2_def float_max_bound_def x xx)
qed

lemma example_strike_in_radius: "in_radius fsq example_strike"
proof -
  have lat: "rnd (37560 / 1000) = 660762507828265 / 17592186044416"
    by (rule rnd_eqI [where e = "- 47" and m = "5286100062626120"]) (simp_all add: power_int_minus)
  have lon: "rnd (126795 / 1000) = 8922404918006907 / 70368744177664"
    by (rule rnd_eqI [where e = "- 46" and m = "8922404918006907"]) (simp_all add: power_int_minus)
  have x: "fsub (660762507828265 / 17592186044416) (5285818587649409 / 140737488355328) = 281474976711 / 140737488355328"
    unfolding fsub_def
    by (rule rnd_eqI [where e = "- 61" and m = "4611686018433024"]) (simp_all add: power_int_minus)
  have y: "fsub (8922404918006907 / 70368744177664) (8922334549262729 / 70368744177664) = 35184372089 / 35184372088832"
    unfolding fsub_def
    by (rule rnd_eqI [where e = "- 62" and m = "4611686018449408"]) (simp_all add: power_int_minus)
  have xx: "fsq (281474976711 / 140737488355328) = 1180591620720297 / 295147905179352825856"
    unfolding fsq_def
    by (rule rnd_eqI [where e = "- 70" and m = "4722366482881188"]) (simp_all add: power_int_minus)
  have yy: "fsq (35184372089 / 35184372088832) = 2361183241457371 / 2361183241434822606848"
    unfolding fsq_def
    by (rule rnd_eqI [where e = "- 72" and m = "4722366482914742"]) (simp_all add: power_int_minus)
  have s: "fadd (1180591620720297 / 295147905179352825856) (2361183241457371 / 2361183241434822606848) = 2951479051804937 / 590295810358705651712"
    unfolding fadd_def
    by (rule rnd_eqI_tie [where e = "- 70" and m = "5902958103609874"]) (simp_all add: power_int_minus)
  show ?thesis
    unfolding in_radius_def strike_within_def example_strike_def example_latitude_value
      example_longitude_value is_within_radius_def
      GMP_LATITUDE_value GMP_LONGITUDE_value
    by (simp add: py_pow2_def float_max_bound_def x y xx yy s fsq_radius_in_deg)
qed

text \<open>
  Claim C5. Filtering by the radius predicate is idempotent: a list all of whose records
  satisfy the predicate is returned as it is, and filtering the result of the filter
  again gives the same result (an exception of the first pass is the result of both).
\<close>

theorem filter_idempotent:
  "(list_all (in_radius pw) xs \<longrightarrow> nearby pw xs = Inr xs) \<and>
   bind_err (nearby pw xs) (nearby pw) = nearby pw xs"
proof
  show "list_all (in_radius pw) xs \<longrightarrow> nearby pw xs = Inr xs"
  proof
    assume a: "list_all (in_radius pw) xs"
    then have "list_all (evaluates pw) xs"
      by (simp add: list_all_iff in_radius_evaluates)
    then have "nearby pw xs = Inr (filter (in_radius pw) xs)" by (rule nearby_filter)
    moreover from a have "filter (in_radius pw) xs = xs" by (simp add: list_all_iff)
    ultimately show "nearby pw xs = Inr xs" by simp
  qed
next
  show "bind_err (nearby pw xs) (nearby pw) = nearby pw xs"
  proof (cases "nearby pw xs")
    case (Inl e)
    then show ?thesis by simp
  next
    case (Inr ns)
    then have "list_all (evaluates pw) xs" by (rule nearby_Inr_evaluates)
    then have "nearby pw xs = Inr (filter (in_radius pw) xs)" by (rule nearby_filter)
    with Inr have ns: "ns = filter (in_radius pw) xs" by simp
    have "list_all (evaluates pw) ns"
      unfolding ns by (simp add: list_all_iff in_radius_evaluates)
    then have "nearby pw ns = Inr (filter (in_radius pw) ns)" by (rule nearby_filter)
    also have "filter (in_radius pw) ns = ns" unfolding ns by simp
    finally show ?thesis using Inr by simp
  qed
qed

theorem filter_idempotent_witness:
  "list_all (in_radius fsq) [example_strike] \<and> nearby fsq [example_strike] = Inr [example_strike]"
  using filter_idempotent [of fsq "[example_strike]"] example_strike_in_radius by simp

section \<open>Properties of the report endpoint\<close>

lemma report_2xx_no_data:
  assumes "200 \<le> status_code r" "status_code r < 300"
    and "body r = Inr (JObj kvs)" "map_of kvs ''data'' = None"
  shows "gmp_lightning_report modern pw (Returns r) = Inr (200, success_body [])"
  using assms by (simp add: gmp_lightning_report_def report_try_2xx response_json_def)

lemma report_2xx_not_json:
  assumes "200 \<le> status_code r" "status_code r < 300" and "body r = Inl (NotJSON m)"
  shows "gmp_lightning_report modern pw (Returns r) =
     (if modern then Inr (500, error_body (RequestsJSONDecodeError m)) else Inl (ValueError m))"
  using assms by (simp add: gmp_lightning_report_def report_try_2xx response_json_def)

lemma report_2xx_int_too_long:
  assumes "200 \<le> status_code r" "status_code r < 300" and "body r = Inl (IntTooLong m)"
  shows "gmp_lightning_report modern pw (Returns r) = Inl (ValueError m)"
  using assms by (simp add: gmp_lightning_report_def report_try_2xx response_json_def)

text \<open>
  Records with float coordinates of moderate size never make the predicate raise, when
  the library's \<^verbatim>\<open>pow\<close> is accurate.
\<close>

lemma fsq_accurate: "pow2_accurate fsq"
  unfolding pow2_accurate_def
proof
  fix x :: rat
  have "\<bar>rnd (x * x) - x * x\<bar> \<le> \<bar>x * x\<bar> / 2 ^ 53 + 1 / 2 ^ 1075" by (rule rnd_error)
  also have "\<bar>x * x\<bar> = x * x" by simp
  also have "x * x / 2 ^ 53 + 1 / 2 ^ 1075 \<le> x * x / 2 ^ 52 + 1 / 2 ^ 1074"
  proof -
    have "x * x / 2 ^ 53 \<le> x * x / 2 ^ 52"
      by (intro divide_left_mono) simp_all
    moreover have "(1::rat) / 2 ^ 1075 \<le> 1 / 2 ^ 1074"
      by (intro divide_left_mono) simp_all
    ultimately show ?thesis by (rule add_mono)
  qed
  finally show "\<bar>fsq x - x * x\<bar> \<le> x * x / 2 ^ 52 + 1 / 2 ^ 1074"
    by (simp add: fsq_def)
qed

lemma pow2_bound:
  assumes "pow2_accurate pw" and "\<bar>x\<bar> \<le> b"
  shows "\<bar>pw x\<bar> \<le> 2 * (b * b) + 1"
proof -
  define y where "y = x * x"
  from assms(2) have b: "0 \<le> b" by linarith
  have xx: "y \<le> b * b"
    unfolding y_def using assms(2) by (metis abs_mult_self_eq abs_ge_zero mult_mono b)
  have y0: "0 \<le> y" unfolding y_def by simp
  from assms(1) have e: "\<bar>pw x - y\<bar> \<le> y / 2 ^ 52 + 1 / 2 ^ 1074"
    unfolding pow2_accurate_def y_def by blast
  have "y / 2 ^ 52 \<le> y" using y0 by (simp add: divide_le_eq)
  moreover have "(1::rat) / 2 ^ 1074 \<le> 1" by simp
  ultimately have "\<bar>pw x - y\<bar> \<le> y + 1" using e by linarith
  then have "\<bar>pw x\<bar> \<le> 2 * y + 1"
    using y0 by (simp add: abs_le_iff abs_if split: if_splits)
  with xx show ?thesis by linarith
qed

lemma rnd_abs_bound: "\<bar>rnd q\<bar> \<le> 2 * \<bar>q\<bar> + 1"
proof -
  have "\<bar>rnd q - q\<bar> \<le> \<bar>q\<bar> / 2 ^ 53 + 1 / 2 ^ 1075" by (rule rnd_error)
  moreover have "\<bar>q\<bar> / 2 ^ 53 \<le> \<bar>q\<bar>" by (simp add: divide_le_eq)
  moreover have "(1::rat) / 2 ^ 1075 \<le> 1" by simp
  ultimately have "\<bar>rnd q - q\<bar> \<le> \<bar>q\<bar> + 1" by linarith
  then show ?thesis by (simp add: abs_le_iff abs_if split: if_splits)
qed

lemma coordinate_square_ok:
  assumes "pow2_accurate pw" and "\<bar>a\<bar> \<le> 10 ^ 150" and "\<bar>c\<bar> \<le> 200"
  shows "py_pow2 pw (fsub a c) = Inr (pw (fsub a c))"
proof -
  define B :: rat where "B = 10 ^ 150"
  have B: "200 \<le> B" unfolding B_def by simp
  have a: "\<bar>a\<bar> \<le> B" using assms(2) by (simp add: B_def)
  have "\<bar>fsub a c\<bar> \<le> 2 * \<bar>a - c\<bar> + 1" unfolding fsub_def by (rule rnd_abs_bound)
  also have "\<dots> \<le> 5 * B"
    using a assms(3) B by (simp add: abs_le_iff abs_if split: if_splits)
  finally have "\<bar>fsub a c\<bar> \<le> 5 * B" .
  from pow2_bound [OF assms(1) this]
  have "\<bar>pw (fsub a c)\<bar> \<le> 2 * (5 * B * (5 * B)) + 1" .
  also have "\<dots> < float_max_bound" by (simp add: float_max_bound_def B_def)
  finally show ?thesis by (simp add: py_pow2_def)
qed

lemma radius_square_ok:
  assumes "pow2_accurate pw"
  shows "py_pow2 pw radius_in_deg = Inr (pw radius_in_deg)"
proof -
  have "\<bar>radius_in_deg\<bar> \<le> 1" by (simp add: radius_in_deg_value)
  from pow2_bound [OF assms this] have "\<bar>pw radius_in_deg\<bar> \<le> 3" by simp
  also have "\<dots> < float_max_bound" by (simp add: float_max_bound_def)
  finally show ?thesis by (simp add: py_pow2_def)
qed

lemma strike_record_evaluates:
  assumes "pow2_accurate pw" and "strike_record s"
  shows "evaluates pw s"
proof -
  from assms(2) obtain kvs a b where s: "s = JObj kvs"
    and la: "map_of kvs ''latitude'' = Some (JFloat a)" and a: "\<bar>a\<bar> \<le> 10 ^ 150"
    and lo: "map_of kvs ''longitude'' = Some (JFloat b)" and b: "\<bar>b\<bar> \<le> 10 ^ 150"
    unfolding strike_record_def
    by (auto split: json.splits option.splits elim!: float_coordinate.elims)
  have g1: "\<bar>GMP_LATITUDE\<bar> \<le> 200" by (simp add: GMP_LATITUDE_value)
  have g2: "\<bar>GMP_LONGITUDE\<bar> \<le> 200" by (simp add: GMP_LONGITUDE_value)
  have "strike_within pw s =
      Inr (fadd (pw (fsub a GMP_LATITUDE)) (pw (fsub b GMP_LONGITUDE)) < pw radius_in_deg)"
    by (simp add: s la lo strike_within_def is_within_radius_def
        coordinate_square_ok [OF assms(1) a g1] coordinate_square_ok [OF assms(1) b g2]
        radius_square_ok [OF assms(1)])
  then show ?thesis by (simp add: evaluates_def)
qed

lemma strike_records_evaluate:
  "pow2_accurate pw \<Longrightarrow> list_all strike_record ss \<Longrightarrow> list_all (evaluates pw) ss"
  by (simp add: list_all_iff strike_record_evaluates)

lemma example_strike_record: "strike_record example_strike"
  unfolding strike_record_def example_strike_def example_latitude_value example_longitude_value
  by simp

lemma far_strike_record: "strike_record far_strike"
  unfolding strike_record_def far_strike_def far_latitude_value
    GMP_LONGITUDE_value [unfolded GMP_LONGITUDE_def]
  by simp

text \<open>
  Claim C8. When the simulator answers with a 2xx status and a JSON object that has no
  \<open>data\<close> field, the report endpoint returns a success response with an empty
  \<open>strikes\<close> list and \<open>nearby_strikes_count\<close> 0.
\<close>

theorem missing_data_is_empty_report:
  assumes "200 \<le> status_code r" and "status_code r < 300"
    and "body r = Inr (JObj kvs)" and "map_of kvs ''data'' = None"
  shows "gmp_lightning_report modern pw (Returns r) =
     Inr (200, JObj [(''status'', JStr ''success''),
                     (''report_for'', JStr ''Gimpo Airport (GMP)''),
                     (''nearby_strikes_count'', JInt 0),
                     (''strikes'', JArr [])])"
  using report_2xx_no_data [OF assms] by (simp add: success_body_def)

theorem missing_data_is_empty_report_witness:
  "gmp_lightning_report True fsq (Returns (ok_response (JObj [(''status'', JStr ''success'')]))) =
     Inr (200, JObj [(''status'', JStr ''success''),
                     (''report_for'', JStr ''Gimpo Airport (GMP)''),
                     (''nearby_strikes_count'', JInt 0),
                     (''strikes'', JArr [])])"
  by (rule missing_data_is_empty_report [where kvs = "[(''status'', JStr ''success'')]"])
     (simp_all add: ok_response_def)

text \<open>
  Claim C2, as stated, fails: a strike record is any record with finite float
  coordinates, and for a latitude of \<open>1e200\<close> the squaring raises OverflowError, which
  the endpoint does not catch.
\<close>

theorem report_lists_nearby_strikes_counterexample:
  "gmp_lightning_report True fsq (Returns (ok_response (JObj [(''data'', JArr [huge_strike])]))) =
     Inl OverflowError"
proof -
  have "nearby fsq [huge_strike] = Inl OverflowError"
    by (simp add: huge_strike_overflows)
  then show ?thesis
    using report_2xx_list [of "ok_response (JObj [(''data'', JArr [huge_strike])])"
        "[(''data'', JArr [huge_strike])]" "[huge_strike]" True fsq]
    by (simp add: ok_response_def)
qed

text \<open>
  Claim C2, amended. When the simulator answers with a 2xx status and a list of strike
  records whose latitude and longitude are floats of magnitude at most \<open>10 ^ 150\<close>, and
  \<^verbatim>\<open>pow\<close> is accurate to a unit in the last place, the report endpoint responds with
  status \<open>success\<close>, the fixed label, \<open>strikes\<close> equal to the records of the input that
  satisfy the radius predicate, in their order and unchanged, and
  \<open>nearby_strikes_count\<close> equal to their number.
\<close>

theorem report_lists_nearby_strikes:
  assumes "pow2_accurate pw"
    and "200 \<le> status_code r" and "status_code r < 300"
    and "body r = Inr (JObj kvs)" and "map_of kvs ''data'' = Some (JArr ss)"
    and "list_all strike_record ss"
  shows "gmp_lightning_report modern pw (Returns r) =
     Inr (200, JObj [(''status'', JStr ''success''),
                     (''report_for'', JStr ''Gimpo Airport (GMP)''),
                     (''nearby_strikes_count'', JInt (int (length (filter (in_radius pw) ss)))),
                     (''strikes'', JArr (filter (in_radius pw) ss))])"
  using report_2xx_list [OF assms(2-5), of modern pw]
    nearby_filter [OF strike_records_evaluate [OF assms(1,6)]]
  by (simp add: success_body_def)

theorem report_lists_nearby_strikes_witness:
  "gmp_lightning_report True fsq
     (Returns (ok_response (JObj [(''data'', JArr [far_strike, example_strike])]))) =
     Inr (200, JObj [(''status'', JStr ''success''),
                     (''report_for'', JStr ''Gimpo Airport (GMP)''),
                     (''nearby_strikes_count'', JInt 1),
                     (''strikes'', JArr [example_strike])])"
proof -
  have f: "\<not> in_radius fsq far_strike"
    by (simp add: in_radius_def far_strike_not_in_radius)
  show ?thesis
    using report_lists_nearby_strikes [OF fsq_accurate,
        of "ok_response (JObj [(''data'', JArr [far_strike, example_strike])])"
        "[(''data'', JArr [far_strike, example_strike])]" "[far_strike, example_strike]" True]
      example_strike_in_radius f example_strike_record far_strike_record
    by (simp add: ok_response_def)
qed

text \<open>
  Claim C10. The handler catches RequestException only. With a 2xx response, a body that
  is not valid JSON makes the endpoint raise ValueError when the requests library is older
  than 2.27, an integer literal beyond the decoder's digit limit makes it raise ValueError
  with any library, and a data list with a record that lacks \<open>latitude\<close> or
  \<open>longitude\<close> makes it raise KeyError with any library; none of these exceptions is
  caught, so no error body is produced.
\<close>

theorem malformed_body_not_caught:
  assumes "200 \<le> status_code r" and "status_code r < 300"
  shows "(\<not> modern \<and> body r = Inl (NotJSON m) \<longrightarrow>
            gmp_lightning_report modern pw (Returns r) = Inl (ValueError m)) \<and>
         (body r = Inl (IntTooLong m) \<longrightarrow>
            gmp_lightning_report modern pw (Returns r) = Inl (ValueError m)) \<and>
         (body r = Inr (JObj kvs) \<and> map_of kvs ''data'' = Some (JArr (pre @ JObj entries # rest)) \<and>
          list_all (evaluates pw) pre \<and> map_of entries ''latitude'' = None \<longrightarrow>
            gmp_lightning_report modern pw (Returns r) = Inl (KeyError ''latitude'')) \<and>
         (body r = Inr (JObj kvs) \<and> map_of kvs ''data'' = Some (JArr (pre @ JObj entries # rest)) \<and>
          list_all (evaluates pw) pre \<and> map_of entries ''latitude'' = Some v \<and>
          map_of entries ''longitude'' = None \<longrightarrow>
            gmp_lightning_report modern pw (Returns r) = Inl (KeyError ''longitude''))"
proof (intro conjI impI)
  assume "\<not> modern \<and> body r = Inl (NotJSON m)"
  then show "gmp_lightning_report modern pw (Returns r) = Inl (ValueError m)"
    using report_2xx_not_json [OF assms, of m modern pw] by simp
next
  assume "body r = Inl (IntTooLong m)"
  then show "gmp_lightning_report modern pw (Returns r) = Inl (ValueError m)"
    using report_2xx_int_too_long [OF assms] by simp
next
  assume a: "body r = Inr (JObj kvs) \<and> map_of kvs ''data'' = Some (JArr (pre @ JObj entries # rest)) \<and>
          list_all (evaluates pw) pre \<and> map_of entries ''latitude'' = None"
  then have "strike_within pw (JObj entries) = Inl (KeyError ''latitude'')"
    by (simp add: strike_within_def)
  with a have "nearby pw (pre @ JObj entries # rest) = Inl (KeyError ''latitude'')"
    by (simp add: nearby_raises)
  with a show "gmp_lightning_report modern pw (Returns r) = Inl (KeyError ''latitude'')"
    using report_2xx_list [OF assms, of kvs "pre @ JObj entries # rest" modern pw] by simp
next
  assume a: "body r = Inr (JObj kvs) \<and> map_of kvs ''data'' = Some (JArr (pre @ JObj entries # rest)) \<and>
          list_all (evaluates pw) pre \<and> map_of entries ''latitude'' = Some v \<and>
          map_of entries ''longitude'' = None"
  then have "strike_within pw (JObj entries) = Inl (KeyError ''longitude'')"
    by (simp add: strike_within_def)
  with a have "nearby pw (pre @ JObj entries # rest) = Inl (KeyError ''longitude'')"
    by (simp add: nearby_raises)
  with a show "gmp_lightning_report modern pw (Returns r) = Inl (KeyError ''longitude'')"
    using report_2xx_list [OF assms, of kvs "pre @ JObj entries # rest" modern pw] by simp
qed

theorem malformed_body_not_caught_witness:
  "gmp_lightning_report False fsq (Returns garbled_response) =
     Inl (ValueError ''Expecting value: line 1 column 1 (char 0)'') \<and>
   gmp_lightning_report True fsq
     (Returns (ok_response (JObj [(''data'', JArr [JObj [(''id'', JStr ''strike_1234'')]])]))) =
     Inl (KeyError ''latitude'') \<and>
   gmp_lightning_report True fsq
     (Returns (ok_response (JObj [(''data'',
        JArr [JObj [(''latitude'', JFloat (rnd (37560 / 1000)))]])]))) =
     Inl (KeyError ''longitude'')"
proof (intro conjI)
  show "gmp_lightning_report False fsq (Returns garbled_response) =
     Inl (ValueError ''Expecting value: line 1 column 1 (char 0)'')"
    using malformed_body_not_caught [of garbled_response False
        "''Expecting value: line 1 column 1 (char 0)''"]
    by (simp add: garbled_response_def)
next
  show "gmp_lightning_report True fsq
     (Returns (ok_response (JObj [(''data'', JArr [JObj [(''id'', JStr ''strike_1234'')]])]))) =
     Inl (KeyError ''latitude'')"
    using malformed_body_not_caught [of
        "ok_response (JObj [(''data'', JArr [JObj [(''id'', JStr ''strike_1234'')]])])"
        True _ fsq "[(''data'', JArr [JObj [(''id'', JStr ''strike_1234'')]])]" "[]"
        "[(''id'', JStr ''strike_1234'')]" "[]"]
    by (simp add: ok_response_def)
next
  show "gmp_lightning_report True fsq
     (Returns (ok_response (JObj [(''data'',
        JArr [JObj [(''latitude'', JFloat (rnd (37560 / 1000)))]])]))) =
     Inl (KeyError ''longitude'')"
    using malformed_body_not_caught [of
        "ok_response (JObj [(''data'', JArr [JObj [(''latitude'', JFloat (rnd (37560 / 1000)))]])])"
        True _ fsq "[(''data'', JArr [JObj [(''latitude'', JFloat (rnd (37560 / 1000)))]])]" "[]"
        "[(''latitude'', JFloat (rnd (37560 / 1000)))]" "[]" "JFloat (rnd (37560 / 1000))"]
    by (simp add: ok_response_def)
qed

lemma report_raises:
  "gmp_lightning_report modern pw (Raises m) = Inr (500, error_body (RequestException m))"
  by (simp add: gmp_lightning_report_def report_try_def)

lemma report_http_error:
  assumes "400 \<le> status_code r" "status_code r < 600"
  shows "gmp_lightning_report modern pw (Returns r) =
     Inr (500, error_body (HTTPError (str_nat (status_code r)
        @ (if status_code r < 500 then '' Client Error: '' else '' Server Error: '')
        @ reason r @ '' for url: '' @ url r)))"
  using assms by (simp add: gmp_lightning_report_def report_try_def raise_for_status_def)

lemma get_data_raises: "get_data j = Inl e \<Longrightarrow> \<not> is_request_exception e"
  by (cases j) (auto split: option.splits)

lemma py_iter_raises: "py_iter j = Inl e \<Longrightarrow> \<not> is_request_exception e"
  by (cases j) auto

lemma report_2xx_outcome:
  assumes "200 \<le> status_code r" "status_code r < 300"
  shows "(\<exists>ns. gmp_lightning_report modern pw (Returns r) = Inr (200, success_body ns)) \<or>
     (modern \<and> (\<exists>m. body r = Inl (NotJSON m) \<and>
        gmp_lightning_report modern pw (Returns r) =
          Inr (500, error_body (RequestsJSONDecodeError m)))) \<or>
     (\<exists>e. gmp_lightning_report modern pw (Returns r) = Inl e \<and> \<not> is_request_exception e)"
proof (cases "body r")
  case (Inl d)
  show ?thesis
  proof (cases d)
    case (NotJSON m)
    with Inl have "body r = Inl (NotJSON m)" by simp
    from report_2xx_not_json [OF assms this, of modern pw] this show ?thesis
      by (cases modern) auto
  next
    case (IntTooLong m)
    with Inl have "body r = Inl (IntTooLong m)" by simp
    from report_2xx_int_too_long [OF assms this, of modern pw] show ?thesis by auto
  qed
next
  case (Inr j)
  show ?thesis
  proof (cases "report_try modern pw (Returns r)")
    case (Inl e)
    then have "\<not> is_request_exception e"
      using assms Inr
      by (auto simp: report_try_2xx response_json_def bind_err_Inl
          dest: get_data_raises py_iter_raises nearby_raises_no_request_exception)
    with Inl have "gmp_lightning_report modern pw (Returns r) = Inl e \<and> \<not> is_request_exception e"
      by (simp add: gmp_lightning_report_def)
    then show ?thesis by blast
  next
    case (Inr resp)
    then have "\<exists>ns. resp = (200, success_body ns)"
      using assms by (auto simp: report_try_2xx bind_err_Inr)
    with Inr have "\<exists>ns. gmp_lightning_report modern pw (Returns r) = Inr (200, success_body ns)"
      by (auto simp: gmp_lightning_report_def)
    then show ?thesis by blast
  qed
qed

text \<open>
  Claim C3, as stated, fails twice. A 2xx response whose data list holds a record without
  coordinates ends in an exception that is not caught, neither an error response nor a
  success response; and a response with status 300, which is not 2xx, passes
  \<^verbatim>\<open>raise_for_status\<close> and gets a success response.
\<close>

theorem report_error_paths_counterexample:
  "gmp_lightning_report True fsq (Returns (ok_response (JObj [(''data'', JArr [JObj []])]))) =
     Inl (KeyError ''latitude'') \<and>
   gmp_lightning_report True fsq
     (Returns (multiple_choices_response (JObj [(''data'', JArr [])]))) =
     Inr (200, JObj [(''status'', JStr ''success''),
                     (''report_for'', JStr ''Gimpo Airport (GMP)''),
                     (''nearby_strikes_count'', JInt 0),
                     (''strikes'', JArr [])])"
  by (simp add: gmp_lightning_report_def report_try_def raise_for_status_def response_json_def
      ok_response_def multiple_choices_response_def strike_within_def success_body_def)

text \<open>
  Claim C3, amended. A transport failure and a 4xx or 5xx status give the response 500
  with status \<open>error\<close> and a message that embeds the text of the exception. This is not
  the only failing path: with a 2xx status the endpoint returns a success response, or
  that same error response (only for a body that is not JSON, under a requests library
  that raises its own JSONDecodeError), or it lets through an exception that is not a
  RequestException. With a 2xx status, an accurate \<^verbatim>\<open>pow\<close> and a body that is a JSON
  object with no \<open>data\<close> field or with a list of strike records, the response is a
  success response. Nothing is said of the other status codes.
\<close>

theorem report_error_paths:
  "gmp_lightning_report modern pw (Raises m) =
     Inr (500, JObj [(''status'', JStr ''error''),
                     (''message'', JStr (''Failed to call KMA API: '' @ m))]) \<and>
   (400 \<le> status_code r \<and> status_code r < 600 \<longrightarrow>
     gmp_lightning_report modern pw (Returns r) =
       Inr (500, JObj [(''status'', JStr ''error''),
                       (''message'', JStr (''Failed to call KMA API: '' @ str_nat (status_code r)
                          @ (if status_code r < 500 then '' Client Error: '' else '' Server Error: '')
                          @ reason r @ '' for url: '' @ url r))])) \<and>
   (200 \<le> status_code r \<and> status_code r < 300 \<longrightarrow>
      (\<exists>ns. gmp_lightning_report modern pw (Returns r) = Inr (200, success_body ns)) \<or>
      (modern \<and> (\<exists>t. body r = Inl (NotJSON t) \<and>
         gmp_lightning_report modern pw (Returns r) =
           Inr (500, JObj [(''status'', JStr ''error''),
                           (''message'', JStr (''Failed to call KMA API: '' @ t))]))) \<or>
      (\<exists>e. gmp_lightning_report modern pw (Returns r) = Inl e \<and> \<not> is_request_exception e)) \<and>
   (pow2_accurate pw \<and> 200 \<le> status_code r \<and> status_code r < 300 \<and>
    body r = Inr (JObj kvs) \<and>
    (map_of kvs ''data'' = None \<or>
     (\<exists>ss. map_of kvs ''data'' = Some (JArr ss) \<and> list_all strike_record ss)) \<longrightarrow>
      (\<exists>ns. gmp_lightning_report modern pw (Returns r) = Inr (200, success_body ns)))"
proof -
  have c1: "gmp_lightning_report modern pw (Raises m) =
     Inr (500, JObj [(''status'', JStr ''error''),
                     (''message'', JStr (''Failed to call KMA API: '' @ m))])"
    by (simp add: report_raises error_body_def)
  have c2: "gmp_lightning_report modern pw (Returns r) =
       Inr (500, JObj [(''status'', JStr ''error''),
                       (''message'', JStr (''Failed to call KMA API: '' @ str_nat (status_code r)
                          @ (if status_code r < 500 then '' Client Error: '' else '' Server Error: '')
                          @ reason r @ '' for url: '' @ url r))])"
    if "400 \<le> status_code r \<and> status_code r < 600"
    using that by (simp add: report_http_error error_body_def)
  have c3: "(\<exists>ns. gmp_lightning_report modern pw (Returns r) = Inr (200, success_body ns)) \<or>
      (modern \<and> (\<exists>t. body r = Inl (NotJSON t) \<and>
         gmp_lightning_report modern pw (Returns r) =
           Inr (500, JObj [(''status'', JStr ''error''),
                           (''message'', JStr (''Failed to call KMA API: '' @ t))]))) \<or>
      (\<exists>e. gmp_lightning_report modern pw (Returns r) = Inl e \<and> \<not> is_request_exception e)"
    if "200 \<le> status_code r \<and> status_code r < 300"
    using that report_2xx_outcome [of r modern pw] by (simp add: error_body_def)
  have c4: "\<exists>ns. gmp_lightning_report modern pw (Returns r) = Inr (200, success_body ns)"
    if a: "pow2_accurate pw \<and> 200 \<le> status_code r \<and> status_code r < 300 \<and>
      body r = Inr (JObj kvs) \<and>
      (map_of kvs ''data'' = None \<or>
       (\<exists>ss. map_of kvs ''data'' = Some (JArr ss) \<and> list_all strike_record ss))"
  proof -
    from a have r: "200 \<le> status_code r" "status_code r < 300" "body r = Inr (JObj kvs)"
      and pw: "pow2_accurate pw"
      by simp_all
    from a have "map_of kvs ''data'' = None \<or>
       (\<exists>ss. map_of kvs ''data'' = Some (JArr ss) \<and> list_all strike_record ss)"
      by simp
    then show ?thesis
    proof
      assume "map_of kvs ''data'' = None"
      with r have "gmp_lightning_report modern pw (Returns r) = Inr (200, success_body [])"
        by (rule report_2xx_no_data)
      then show ?thesis ..
    next
      assume "\<exists>ss. map_of kvs ''data'' = Some (JArr ss) \<and> list_all strike_record ss"
      then obtain ss where ss: "map_of kvs ''data'' = Some (JArr ss)"
        and sr: "list_all strike_record ss"
        by auto
      have "gmp_lightning_report modern pw (Returns r) =
          Inr (200, success_body (filter (in_radius pw) ss))"
        using report_2xx_list [OF r ss, of modern pw]
          nearby_filter [OF strike_records_evaluate [OF pw sr]] by simp
      then show ?thesis ..
    qed
  qed
  from c1 c2 c3 c4 show ?thesis by blast
qed

theorem report_error_paths_witness:
  "gmp_lightning_report True fsq (Returns not_found_response) =
     Inr (500, JObj [(''status'', JStr ''error''),
       (''message'', JStr (''Failed to call KMA API: 404 Client Error: NOT FOUND for url: http://localhost:5000/api/kma/lightning-strikes''))])"
proof -
  have "str_nat 404 = ''404''" by code_simp
  then show ?thesis
    using report_error_paths [of True fsq "[]" not_found_response]
    by (simp add: not_found_response_def)
qed

section \<open>Properties of the random numbers\<close>

text \<open>
  A draw returns a value in its range and a later state of the same generator; it
  returns on every fair generator; each value of the range is drawn for the same number
  of first words.
\<close>

lemma advance_0: "advance 0 g = g"
  by (simp add: advance_def)

lemma advance_advance: "advance i (advance j g) = advance (j + i) g"
  by (simp add: advance_def add.assoc)

lemma tail_advance: "(\<lambda>i. g (Suc i)) = advance 1 g"
  by (simp add: advance_def)

lemma fair_advance: "fair g \<Longrightarrow> fair (advance i g)"
  unfolding fair_def advance_def
proof
  fix k
  assume a: "\<forall>i. \<exists>j\<ge>i. unat (g j) < 2 ^ 31"
  then obtain j where "i + k \<le> j" "unat (g j) < 2 ^ 31" by blast
  then have "k \<le> j - i \<and> unat (g (i + (j - i))) < 2 ^ 31" by simp
  then show "\<exists>j\<ge>k. unat (g (i + j)) < 2 ^ 31" by blast
qed

lemma from_words_Cons_0: "from_words (w # ws) 0 = w"
  by (simp add: from_words_def)

lemma advance_from_words: "advance 1 (from_words (w # ws)) = from_words ws"
  by (auto simp: advance_def from_words_def fun_eq_iff)

lemma advance_Suc_0_from_words: "advance (Suc 0) (from_words (w # ws)) = from_words ws"
  using advance_from_words [of w ws] by simp

lemma from_words_fair: "fair (from_words ws)"
  unfolding fair_def
proof
  fix i
  have "i \<le> i + length ws \<and> unat (from_words ws (i + length ws)) < 2 ^ 31"
    by (simp add: from_words_def)
  then show "\<exists>j\<ge>i. unat (from_words ws j) < 2 ^ 31" by blast
qed

lemma unat_drop_bit: "unat (drop_bit n w) = unat w div 2 ^ n"
  unfolding unat_drop_bit_eq by (simp add: drop_bit_eq_div)

lemma getrandbits_small:
  "k \<le> 32 \<Longrightarrow> getrandbits k g = (unat (g 0) div 2 ^ (32 - k), advance 1 g)"
  by (simp only: getrandbits.simps [of k g] if_True unat_drop_bit tail_advance)

lemma getrandbits_advance: "\<exists>i. snd (getrandbits k g) = advance i g"
proof (induction k g rule: getrandbits.induct)
  case (1 k g)
  show ?case
  proof (cases "k \<le> 32")
    case True
    then have "snd (getrandbits k g) = advance 1 g"
      by (simp add: getrandbits_small)
    then show ?thesis ..
  next
    case False
    with 1 obtain i where i: "snd (getrandbits (k - 32) (\<lambda>i. g (Suc i))) = advance i (\<lambda>i. g (Suc i))"
      by blast
    have "snd (getrandbits k g) = snd (getrandbits (k - 32) (\<lambda>i. g (Suc i)))"
      using False by (simp add: getrandbits.simps [of k g] split: prod.splits)
    also have "\<dots> = advance i (\<lambda>i. g (Suc i))"
      by (rule i)
    also have "\<dots> = advance (1 + i) g"
      by (simp add: advance_def)
    finally show ?thesis ..
  qed
qed

lemma randbelow_loop_result:
  assumes "randbelow_loop n k rg = Some rg'"
  shows "fst rg' < n \<and> (\<exists>i. snd rg' = advance i (snd rg))"
proof (rule randbelow_loop.raw_induct
    [where P = "\<lambda>n k rg rg'. fst rg' < n \<and> (\<exists>i. snd rg' = advance i (snd rg))"])
  show "randbelow_loop n k rg = Some rg'"
    by (rule assms)
next
  fix f n k and rg rg' :: "nat \<times> rng"
  assume IH: "\<And>n k rg rg'. f n k rg = Some rg' \<Longrightarrow>
      fst rg' < n \<and> (\<exists>i. snd rg' = advance i (snd rg))"
    and eq: "(if n \<le> fst rg then f n k (getrandbits k (snd rg)) else Some rg) = Some rg'"
  show "fst rg' < n \<and> (\<exists>i. snd rg' = advance i (snd rg))"
  proof (cases "n \<le> fst rg")
    case True
    with eq have "f n k (getrandbits k (snd rg)) = Some rg'" by simp
    from IH [OF this] obtain i where
      a: "fst rg' < n" and i: "snd rg' = advance i (snd (getrandbits k (snd rg)))"
      by blast
    obtain j where "snd (getrandbits k (snd rg)) = advance j (snd rg)"
      using getrandbits_advance by blast
    with i have "snd rg' = advance (j + i) (snd rg)"
      by (simp add: advance_advance)
    with a show ?thesis by blast
  next
    case False
    with eq have "rg' = rg" by simp
    with False have "fst rg' < n \<and> snd rg' = advance 0 (snd rg)"
      by (simp add: advance_0)
    then show ?thesis by blast
  qed
qed

lemma top_bits_accepted:
  assumes "0 < n" and "unat w < 2 ^ 31" and "floorlog 2 n \<le> 32"
  shows "unat (w :: 32 word) div 2 ^ (32 - floorlog 2 n) < n"
proof -
  define k where "k = floorlog 2 n"
  have k: "0 < k" "k \<le> 32"
    using assms by (simp_all add: k_def floorlog_def)
  have "2 ^ (k - 1) \<le> n"
    using floorlog_bounds [of n 2] assms(1) by (simp add: k_def)
  moreover have "unat w div 2 ^ (32 - k) < 2 ^ (k - 1)"
  proof -
    have "(2::nat) ^ 31 = 2 ^ (k - 1) * 2 ^ (32 - k)"
      using k by (simp flip: power_add)
    with assms(2) have "unat w < 2 ^ (k - 1) * 2 ^ (32 - k)" by simp
    then show ?thesis
      by (simp add: less_mult_imp_div_less)
  qed
  ultimately show ?thesis
    unfolding k_def by linarith
qed

lemma randbelow_loop_returns:
  assumes "0 < n" and "floorlog 2 n \<le> 32"
  shows "unat (snd rg j) < 2 ^ 31 \<Longrightarrow> \<exists>rg'. randbelow_loop n (floorlog 2 n) rg = Some rg'"
proof (induction j arbitrary: rg)
  case 0
  show ?case
  proof (cases "n \<le> fst rg")
    case False
    then show ?thesis by (simp add: randbelow_loop.simps [of n _ rg])
  next
    case True
    have "fst (getrandbits (floorlog 2 n) (snd rg)) < n"
      using top_bits_accepted [OF assms(1) 0 assms(2)] assms(2) by (simp add: getrandbits_small)
    then have "randbelow_loop n (floorlog 2 n) (getrandbits (floorlog 2 n) (snd rg)) =
        Some (getrandbits (floorlog 2 n) (snd rg))"
      by (simp add: randbelow_loop.simps [of n _ "getrandbits (floorlog 2 n) (snd rg)"])
    with True show ?thesis by (simp add: randbelow_loop.simps [of n _ rg])
  qed
next
  case (Suc j)
  show ?case
  proof (cases "n \<le> fst rg")
    case False
    then show ?thesis by (simp add: randbelow_loop.simps [of n _ rg])
  next
    case True
    have "unat (snd (getrandbits (floorlog 2 n) (snd rg)) j) < 2 ^ 31"
      using Suc.prems assms(2) by (simp add: getrandbits_small advance_def)
    from Suc.IH [OF this] True show ?thesis
      by (simp add: randbelow_loop.simps [of n _ rg])
  qed
qed

lemma randbelow_result:
  "randbelow n g = Some (r, g') \<Longrightarrow> r < n \<and> (\<exists>i. g' = advance i g)"
proof -
  assume "randbelow n g = Some (r, g')"
  then have a: "randbelow_loop n (floorlog 2 n) (getrandbits (floorlog 2 n) g) = Some (r, g')"
    by (simp add: randbelow_def Let_def)
  from randbelow_loop_result [OF a] obtain i where
    r: "r < n" and i: "g' = advance i (snd (getrandbits (floorlog 2 n) g))"
    by auto
  obtain j where "snd (getrandbits (floorlog 2 n) g) = advance j g"
    using getrandbits_advance by blast
  with i have "g' = advance (j + i) g" by (simp add: advance_advance)
  with r show ?thesis by blast
qed

lemma randbelow_returns:
  assumes "fair g" and "0 < n" and "floorlog 2 n \<le> 32"
  shows "\<exists>r g'. randbelow n g = Some (r, g')"
proof -
  from assms(1) obtain j where j: "1 \<le> j" "unat (g j) < 2 ^ 31"
    unfolding fair_def by blast
  then have "unat (snd (getrandbits (floorlog 2 n) g) (j - 1)) < 2 ^ 31"
    using assms(3) by (simp add: getrandbits_small advance_def)
  from randbelow_loop_returns [OF assms(2,3) this] show ?thesis
    by (auto simp: randbelow_def Let_def)
qed

lemma randbelow_loop_accept: "fst rg < n \<Longrightarrow> randbelow_loop n k rg = Some rg"
  by (simp add: randbelow_loop.simps [of n k rg])


lemma randbelow_first:
  assumes "floorlog 2 n \<le> 32" and "unat (g 0) div 2 ^ (32 - floorlog 2 n) < n"
  shows "randbelow n g = Some (unat (g 0) div 2 ^ (32 - floorlog 2 n), advance 1 g)"
  unfolding randbelow_def Let_def getrandbits_small [OF assms(1)]
  by (rule randbelow_loop_accept) (simp add: assms(2))


lemma randint_result:
  assumes "randint a b g = Some (x, g')" and "a \<le> b"
  shows "a \<le> x \<and> x \<le> b \<and> (\<exists>i. g' = advance i g)"
proof -
  from assms(1) obtain r where r: "randbelow (nat (b + 1 - a)) g = Some (r, g')" and x: "x = a + int r"
    by (auto simp: randint_def split: option.splits)
  from randbelow_result [OF r] have "r < nat (b + 1 - a)" "\<exists>i. g' = advance i g"
    by simp_all
  with x assms(2) show ?thesis by auto
qed

lemma randint_returns:
  assumes "fair g" and "a \<le> b" and "b - a < 2 ^ 32 - 1"
  shows "\<exists>x g'. randint a b g = Some (x, g')"
proof -
  have "nat (b + 1 - a) < 2 ^ 32"
    using assms(2,3) by simp
  then have "floorlog 2 (nat (b + 1 - a)) \<le> 32"
    by (simp add: floorlog_le_iff)
  from randbelow_returns [OF assms(1) _ this] assms(2) show ?thesis
    by (auto simp: randint_def)
qed





lemma py_random_value:
  "py_random g =
     ((of_nat (unat (g 0) div 32) * 67108864 + of_nat (unat (g 1) div 64)) / 9007199254740992,
      advance 2 g)"
proof -
  define a where "a = unat (g 0) div 32"
  define b where "b = unat (g (Suc 0)) div 64"
  have "unat (g 0) < 2 ^ 32" "unat (g (Suc 0)) < 2 ^ 32"
    using unsigned_less [of "g 0"] unsigned_less [of "g (Suc 0)"] by simp_all
  then have a: "a < 2 ^ 27" and b: "b < 2 ^ 26"
    by (simp_all add: a_def b_def less_mult_imp_div_less)
  then have ab: "a * 67108864 + b < 2 ^ 53"
    by simp
  have 1: "fmul (of_nat a) 67108864 = of_nat a * 67108864"
    unfolding fmul_def using rnd_exact_nat [of "a * 67108864"] ab by simp
  have 2: "fadd (of_nat a * 67108864) (of_nat b) = of_nat a * 67108864 + of_nat b"
    unfolding fadd_def using rnd_exact_nat [OF ab] by simp
  have 3: "fdiv 1 9007199254740992 = 1 / 9007199254740992"
    unfolding fdiv_def using rnd_exact [of 1 "- 53"] by (simp add: power_int_minus)
  have 4: "fmul (of_nat a * 67108864 + of_nat b) (1 / 9007199254740992) =
      (of_nat a * 67108864 + of_nat b) / 9007199254740992"
    unfolding fmul_def using rnd_exact [of "int (a * 67108864 + b)" "- 53"] ab
    by (simp add: power_int_minus field_simps)
  have "advance 2 g = (\<lambda>i. g (Suc (Suc i)))"
    by (simp add: advance_def)
  then show ?thesis
    by (simp add: py_random_def genrand_uint32_def unat_drop_bit Let_def 1 2 3 4
        flip: a_def b_def)
qed

lemma py_random_range:
  "0 \<le> fst (py_random g) \<and> fst (py_random g) \<le> 9007199254740991 / 9007199254740992 \<and>
   snd (py_random g) = advance 2 g"
proof -
  define a where "a = unat (g 0) div 32"
  define b where "b = unat (g (Suc 0)) div 64"
  have "unat (g 0) < 2 ^ 32" "unat (g (Suc 0)) < 2 ^ 32"
    using unsigned_less [of "g 0"] unsigned_less [of "g (Suc 0)"] by simp_all
  then have a: "a < 2 ^ 27" and b: "b < 2 ^ 26"
    by (simp_all add: a_def b_def less_mult_imp_div_less)
  then have "a * 67108864 + b \<le> 9007199254740991"
    by simp
  then have "(of_nat (a * 67108864 + b) :: rat) \<le> of_nat 9007199254740991"
    by (simp only: of_nat_le_iff)
  then have "(of_nat a * 67108864 + of_nat b :: rat) \<le> 9007199254740991"
    by simp
  then show ?thesis
    by (simp add: py_random_value flip: a_def b_def)
qed

lemma randint_accept:
  assumes "nat (b + 1 - a) = n" and "floorlog 2 n = k" and "k \<le> 32"
    and "unat w div 2 ^ (32 - k) < n"
  shows "randint a b (from_words (w # ws)) = Some (a + int (unat w div 2 ^ (32 - k)), from_words ws)"
  using randbelow_first [of n "from_words (w # ws)"] assms
  by (simp add: randint_def from_words_Cons_0 advance_Suc_0_from_words)


lemma floorlog_values:
  "floorlog 2 (6::nat) = 3" "floorlog 2 (99::nat) = 7" "floorlog 2 (9000::nat) = 14"
  "floorlog 2 (91::nat) = 7"
  by (simp_all add: compute_floorlog)

lemma py_random_from_words:
  "py_random (from_words (w1 # w2 # ws)) =
     ((of_nat (unat w1 div 32) * 67108864 + of_nat (unat w2 div 64)) / 9007199254740992,
      from_words ws)"
proof -
  have "advance 2 (from_words (w1 # w2 # ws)) = from_words ws"
    by (auto simp: advance_def from_words_def fun_eq_iff)
  then show ?thesis
    by (simp add: py_random_value from_words_def)
qed





section \<open>Properties of the simulator\<close>

text \<open>Rounded values of the offsets and of the coordinates at the ends of their ranges.\<close>

lemma c006_value: "rnd (6 / 100) = 1080863910568919 / 18014398509481984"
  by (rule rnd_eqI [where e = "- 57" and m = "8646911284551352"]) (simp_all add: power_int_minus)

lemma offset_width: "fsub (1080863910568919 / 18014398509481984) (- (1080863910568919 / 18014398509481984)) = 1080863910568919 / 9007199254740992"
  unfolding fsub_def
  by (rule rnd_eqI [where e = "- 56" and m = "8646911284551352"]) (simp_all add: power_int_minus)

lemma offset_scaled_max: "fmul (1080863910568919 / 9007199254740992) (9007199254740991 / 9007199254740992) = 8646911284551351 / 72057594037927936"
  unfolding fmul_def
  by (rule rnd_eqI [where e = "- 56" and m = "8646911284551351"]) (simp_all add: power_int_minus)

lemma offset_max: "fadd (- (1080863910568919 / 18014398509481984)) (8646911284551351 / 72057594037927936) = 4323455642275675 / 72057594037927936"
  unfolding fadd_def
  by (rule rnd_eqI [where e = "- 57" and m = "8646911284551350"]) (simp_all add: power_int_minus)

lemma offset_low: "fadd (- (1080863910568919 / 18014398509481984)) 0 = - (1080863910568919 / 18014398509481984)"
  unfolding fadd_def
  by (rule rnd_eqI [where e = "- 57" and m = "- 8646911284551352"]) (simp_all add: power_int_minus)

lemma offset_scaled_half: "fmul (1080863910568919 / 9007199254740992) (1 / 2) = 1080863910568919 / 18014398509481984"
  unfolding fmul_def
  by (rule rnd_eqI [where e = "- 57" and m = "8646911284551352"]) (simp_all add: power_int_minus)

lemma offset_half: "fadd (- (1080863910568919 / 18014398509481984)) (1080863910568919 / 18014398509481984) = 0"
  by (simp add: fadd_def)

lemma lat_sum_low: "fadd (5285818587649409 / 140737488355328) (- (1080863910568919 / 18014398509481984)) = 5277374338348089 / 140737488355328"
  unfolding fadd_def
  by (rule rnd_eqI [where e = "- 47" and m = "5277374338348089"]) (simp_all add: power_int_minus)

lemma lat_sum_max: "fadd (5285818587649409 / 140737488355328) (4323455642275675 / 72057594037927936) = 5294262836950729 / 140737488355328"
  unfolding fadd_def
  by (rule rnd_eqI [where e = "- 47" and m = "5294262836950729"]) (simp_all add: power_int_minus)


lemma lat_round_low: "py_round (5277374338348089 / 140737488355328) 6 = 5277374338348089 / 140737488355328"
proof -
  have r: "round_half_even (5277374338348089 / 140737488355328 * 10 ^ 6) = 37498000"
    by (rule rhe_eqI) simp
  have v: "rnd (of_int 37498000 / 10 ^ 6) = 5277374338348089 / 140737488355328"
    by (rule rnd_eqI [where e = "- 47" and m = "5277374338348089"]) (simp_all add: power_int_minus)
  show ?thesis
    unfolding py_round_def r by (rule v)
qed

lemma lat_round_max: "py_round (5294262836950729 / 140737488355328) 6 = 5294262836950729 / 140737488355328"
proof -
  have r: "round_half_even (5294262836950729 / 140737488355328 * 10 ^ 6) = 37618000"
    by (rule rhe_eqI) simp
  have v: "rnd (of_int 37618000 / 10 ^ 6) = 5294262836950729 / 140737488355328"
    by (rule rnd_eqI [where e = "- 47" and m = "5294262836950729"]) (simp_all add: power_int_minus)
  show ?thesis
    unfolding py_round_def r by (rule v)
qed


lemma lat_low_value: "rnd (37498 / 1000) = 5277374338348089 / 140737488355328"
  by (rule rnd_eqI [where e = "- 47" and m = "5277374338348089"]) (simp_all add: power_int_minus)

lemma lat_max_value: "rnd (37618 / 1000) = 5294262836950729 / 140737488355328"
  by (rule rnd_eqI [where e = "- 47" and m = "5294262836950729"]) (simp_all add: power_int_minus)

lemma lat_max_diff: "fsub (5294262836950729 / 140737488355328) (5285818587649409 / 140737488355328) = 1055531162665 / 17592186044416"
  unfolding fsub_def
  by (rule rnd_eqI [where e = "- 57" and m = "8646911284551680"]) (simp_all add: power_int_minus)

lemma lon_sum_low: "fadd (8922334549262729 / 70368744177664) (- (1080863910568919 / 18014398509481984)) = 8918112424612069 / 70368744177664"
  unfolding fadd_def
  by (rule rnd_eqI [where e = "- 46" and m = "8918112424612069"]) (simp_all add: power_int_minus)

lemma lon_sum_max: "fadd (8922334549262729 / 70368744177664) (4323455642275675 / 72057594037927936) = 8926556673913389 / 70368744177664"
  unfolding fadd_def
  by (rule rnd_eqI [where e = "- 46" and m = "8926556673913389"]) (simp_all add: power_int_minus)

lemma lon_sum_half: "fadd (8922334549262729 / 70368744177664) 0 = 8922334549262729 / 70368744177664"
  unfolding fadd_def
  by (rule rnd_eqI [where e = "- 46" and m = "8922334549262729"]) (simp_all add: power_int_minus)

lemma lon_round_low: "py_round (8918112424612069 / 70368744177664) 6 = 8918112424612069 / 70368744177664"
proof -
  have r: "round_half_even (8918112424612069 / 70368744177664 * 10 ^ 6) = 126734000"
    by (rule rhe_eqI) simp
  have v: "rnd (of_int 126734000 / 10 ^ 6) = 8918112424612069 / 70368744177664"
    by (rule rnd_eqI [where e = "- 46" and m = "8918112424612069"]) (simp_all add: power_int_minus)
  show ?thesis
    unfolding py_round_def r by (rule v)
qed

lemma lon_round_max: "py_round (8926556673913389 / 70368744177664) 6 = 8926556673913389 / 70368744177664"
proof -
  have r: "round_half_even (8926556673913389 / 70368744177664 * 10 ^ 6) = 126854000"
    by (rule rhe_eqI) simp
  have v: "rnd (of_int 126854000 / 10 ^ 6) = 8926556673913389 / 70368744177664"
    by (rule rnd_eqI [where e = "- 46" and m = "8926556673913389"]) (simp_all add: power_int_minus)
  show ?thesis
    unfolding py_round_def r by (rule v)
qed

lemma lon_round_half: "py_round (8922334549262729 / 70368744177664) 6 = 8922334549262729 / 70368744177664"
proof -
  have r: "round_half_even (8922334549262729 / 70368744177664 * 10 ^ 6) = 126794000"
    by (rule rhe_eqI) simp
  have v: "rnd (of_int 126794000 / 10 ^ 6) = 8922334549262729 / 70368744177664"
    by (rule rnd_eqI [where e = "- 46" and m = "8922334549262729"]) (simp_all add: power_int_minus)
  show ?thesis
    unfolding py_round_def r by (rule v)
qed

lemma lon_low_value: "rnd (126734 / 1000) = 8918112424612069 / 70368744177664"
  by (rule rnd_eqI [where e = "- 46" and m = "8918112424612069"]) (simp_all add: power_int_minus)

lemma lon_max_value: "rnd (126854 / 1000) = 8926556673913389 / 70368744177664"
  by (rule rnd_eqI [where e = "- 46" and m = "8926556673913389"]) (simp_all add: power_int_minus)

lemma lon_max_diff: "fsub (8926556673913389 / 70368744177664) (8922334549262729 / 70368744177664) = 1055531162665 / 17592186044416"
  unfolding fsub_def
  by (rule rnd_eqI [where e = "- 57" and m = "8646911284551680"]) (simp_all add: power_int_minus)

lemma py_round_mono: "x \<le> y \<Longrightarrow> py_round x n \<le> py_round y n"
proof -
  assume "x \<le> y"
  then have "x * 10 ^ n \<le> y * 10 ^ n"
    by (simp add: mult_right_mono)
  then have "round_half_even (x * 10 ^ n) \<le> round_half_even (y * 10 ^ n)"
    by (rule rhe_mono)
  then have "(of_int (round_half_even (x * 10 ^ n)) :: rat) \<le> of_int (round_half_even (y * 10 ^ n))"
    by simp
  then have "(of_int (round_half_even (x * 10 ^ n)) :: rat) / 10 ^ n
      \<le> of_int (round_half_even (y * 10 ^ n)) / 10 ^ n"
    by (simp add: divide_right_mono)
  then show ?thesis
    unfolding py_round_def by (rule rnd_mono)
qed

lemma fadd_mono: "x \<le> y \<Longrightarrow> fadd a x \<le> fadd a y"
  unfolding fadd_def by (intro rnd_mono) simp

lemma uniform_offset:
  assumes "uniform (- rnd (6 / 100)) (rnd (6 / 100)) g = (a, g')"
  shows "- (1080863910568919 / 18014398509481984) \<le> a \<and>
     a \<le> 4323455642275675 / 72057594037927936 \<and> g' = advance 2 g"
proof -
  obtain u where u: "py_random g = (u, advance 2 g)"
    and u0: "0 \<le> u" and u1: "u \<le> 9007199254740991 / 9007199254740992"
    using py_random_range [of g] by (cases "py_random g") auto
  define w :: rat where "w = 1080863910568919 / 9007199254740992"
  have a: "a = fadd (- (1080863910568919 / 18014398509481984)) (fmul w u)" and g': "g' = advance 2 g"
    using assms unfolding uniform_def u c006_value offset_width w_def by simp_all
  have w: "0 \<le> w"
    by (simp add: w_def)
  have "0 \<le> w * u"
    using w u0 by simp
  then have lo: "0 \<le> fmul w u"
    unfolding fmul_def by (rule rnd_nonneg)
  have "w * u \<le> w * (9007199254740991 / 9007199254740992)"
    using w u1 by (rule mult_left_mono [rotated])
  then have "rnd (w * u) \<le> rnd (w * (9007199254740991 / 9007199254740992))"
    by (rule rnd_mono)
  then have hi: "fmul w u \<le> 8646911284551351 / 72057594037927936"
    using offset_scaled_max unfolding fmul_def w_def by simp
  have "fadd (- (1080863910568919 / 18014398509481984)) 0 \<le> a"
    unfolding a using lo by (rule fadd_mono)
  moreover have "a \<le> fadd (- (1080863910568919 / 18014398509481984)) (8646911284551351 / 72057594037927936)"
    unfolding a using hi by (rule fadd_mono)
  ultimately show ?thesis
    unfolding offset_low offset_max using g' by simp
qed

lemma latitude_in_band:
  assumes "- (1080863910568919 / 18014398509481984) \<le> a"
    and "a \<le> 4323455642275675 / 72057594037927936"
  shows "in_band (py_round (fadd GMP_LATITUDE a) 6) (37558 / 1000)"
proof -
  have "py_round (fadd GMP_LATITUDE (- (1080863910568919 / 18014398509481984))) 6
      \<le> py_round (fadd GMP_LATITUDE a) 6"
    using assms(1) by (intro py_round_mono fadd_mono)
  moreover have "py_round (fadd GMP_LATITUDE a) 6
      \<le> py_round (fadd GMP_LATITUDE (4323455642275675 / 72057594037927936)) 6"
    using assms(2) by (intro py_round_mono fadd_mono)
  ultimately have b: "5277374338348089 / 140737488355328 \<le> py_round (fadd GMP_LATITUDE a) 6"
    "py_round (fadd GMP_LATITUDE a) 6 \<le> 5294262836950729 / 140737488355328"
    unfolding GMP_LATITUDE_value lat_sum_low lat_sum_max lat_round_low lat_round_max
    by simp_all
  define y where "y = py_round (fadd GMP_LATITUDE a) 6"
  have v: "rnd (37558 / 1000 - 6 / 100) = 5277374338348089 / 140737488355328"
    "rnd (37558 / 1000 + 6 / 100) = 5294262836950729 / 140737488355328"
    using lat_low_value lat_max_value by simp_all
  have lo: "5277374338348089 / 140737488355328 \<le> y" and hi: "y \<le> 5294262836950729 / 140737488355328"
    using b by (simp_all add: y_def)
  have "y - 37558 / 1000 \<le> 6 / 100 + 1 / 10 ^ 14"
    using hi by simp
  moreover have "- (y - 37558 / 1000) \<le> 6 / 100 + 1 / 10 ^ 14"
    using lo by simp
  ultimately have "\<bar>y - 37558 / 1000\<bar> \<le> 6 / 100 + 1 / 10 ^ 14"
    by (rule abs_leI)
  with lo hi show ?thesis
    unfolding in_band_def v y_def by simp
qed

lemma longitude_in_band:
  assumes "- (1080863910568919 / 18014398509481984) \<le> a"
    and "a \<le> 4323455642275675 / 72057594037927936"
  shows "in_band (py_round (fadd GMP_LONGITUDE a) 6) (126794 / 1000)"
proof -
  have "py_round (fadd GMP_LONGITUDE (- (1080863910568919 / 18014398509481984))) 6
      \<le> py_round (fadd GMP_LONGITUDE a) 6"
    using assms(1) by (intro py_round_mono fadd_mono)
  moreover have "py_round (fadd GMP_LONGITUDE a) 6
      \<le> py_round (fadd GMP_LONGITUDE (4323455642275675 / 72057594037927936)) 6"
    using assms(2) by (intro py_round_mono fadd_mono)
  ultimately have b: "8918112424612069 / 70368744177664 \<le> py_round (fadd GMP_LONGITUDE a) 6"
    "py_round (fadd GMP_LONGITUDE a) 6 \<le> 8926556673913389 / 70368744177664"
    unfolding GMP_LONGITUDE_value lon_sum_low lon_sum_max lon_round_low lon_round_max
    by simp_all
  define y where "y = py_round (fadd GMP_LONGITUDE a) 6"
  have v: "rnd (126794 / 1000 - 6 / 100) = 8918112424612069 / 70368744177664"
    "rnd (126794 / 1000 + 6 / 100) = 8926556673913389 / 70368744177664"
    using lon_low_value lon_max_value by simp_all
  have lo: "8918112424612069 / 70368744177664 \<le> y" and hi: "y \<le> 8926556673913389 / 70368744177664"
    using b by (simp_all add: y_def)
  have "y - 126794 / 1000 \<le> 6 / 100 + 1 / 10 ^ 14"
    using hi by simp
  moreover have "- (y - 126794 / 1000) \<le> 6 / 100 + 1 / 10 ^ 14"
    using lo by simp
  ultimately have "\<bar>y - 126794 / 1000\<bar> \<le> 6 / 100 + 1 / 10 ^ 14"
    by (rule abs_leI)
  with lo hi show ?thesis
    unfolding in_band_def v y_def by simp
qed

lemma offset_bounds:
  assumes "- (1080863910568919 / 18014398509481984) \<le> a"
    and "a \<le> 4323455642275675 / 72057594037927936"
  shows "offset a"
  using assms unfolding offset_def c006_value by simp

lemma uniform_half:
  "uniform (- rnd (6 / 100)) (rnd (6 / 100)) (from_words (0x80000000 # 0 # ws)) = (0, from_words ws)"
proof -
  have "py_random (from_words (0x80000000 # 0 # ws)) = (1 / 2, from_words ws)"
    by (simp add: py_random_from_words)
  then show ?thesis
    unfolding uniform_def c006_value offset_width
    by (simp only: Let_def prod.case offset_scaled_half offset_half)
qed

lemma uniform_top:
  "uniform (- rnd (6 / 100)) (rnd (6 / 100)) (from_words (0xFFFFFFFF # 0xFFFFFFFF # ws)) =
     (4323455642275675 / 72057594037927936, from_words ws)"
proof -
  have "py_random (from_words (0xFFFFFFFF # 0xFFFFFFFF # ws)) =
      (9007199254740991 / 9007199254740992, from_words ws)"
    by (simp add: py_random_from_words)
  then show ?thesis
    unfolding uniform_def c006_value offset_width
    by (simp only: Let_def prod.case offset_scaled_max offset_max)
qed

lemma make_strike_result:
  assumes "make_strike g = Some (s, g')"
  shows "\<exists>n a b i k. s = simulated_strike n a b i \<and> 1000 \<le> n \<and> n \<le> 9999 \<and> 10 \<le> i \<and> i \<le> 100 \<and>
     offset a \<and> offset b \<and>
     in_band (py_round (fadd GMP_LATITUDE a) 6) (37558 / 1000) \<and>
     in_band (py_round (fadd GMP_LONGITUDE b) 6) (126794 / 1000) \<and>
     g' = advance k g"
proof -
  obtain a g1 where u1: "uniform (- rnd (6 / 100)) (rnd (6 / 100)) g = (a, g1)"
    by (cases "uniform (- rnd (6 / 100)) (rnd (6 / 100)) g")
  obtain b g2 where u2: "uniform (- rnd (6 / 100)) (rnd (6 / 100)) g1 = (b, g2)"
    by (cases "uniform (- rnd (6 / 100)) (rnd (6 / 100)) g1")
  from assms obtain n g3 i where r1: "randint 1000 9999 g2 = Some (n, g3)"
    and r2: "randint 10 100 g3 = Some (i, g')" and s: "s = simulated_strike n a b i"
    unfolding make_strike_def Let_def u1 u2 prod.case
    by (auto simp: simulated_strike_def split: option.splits)
  note A = uniform_offset [OF u1]
  note B = uniform_offset [OF u2]
  from randint_result [OF r1] obtain k1 where n: "1000 \<le> n" "n \<le> 9999" and g3: "g3 = advance k1 g2"
    by auto
  from randint_result [OF r2] obtain k2 where i: "10 \<le> i" "i \<le> 100" and g4: "g' = advance k2 g3"
    by auto
  have "g' = advance (2 + 2 + k1 + k2) g"
    using A B g3 g4 by (simp add: advance_advance)
  moreover have "offset a" "offset b"
    using A B by (simp_all add: offset_bounds)
  moreover have "in_band (py_round (fadd GMP_LATITUDE a) 6) (37558 / 1000)"
    using A by (intro latitude_in_band) simp_all
  moreover have "in_band (py_round (fadd GMP_LONGITUDE b) 6) (126794 / 1000)"
    using B by (intro longitude_in_band) simp_all
  ultimately show ?thesis
    using s n i by blast
qed

lemma make_strike_returns:
  assumes "fair g"
  shows "\<exists>s g'. make_strike g = Some (s, g')"
proof -
  obtain a g1 where u1: "uniform (- rnd (6 / 100)) (rnd (6 / 100)) g = (a, g1)"
    by (cases "uniform (- rnd (6 / 100)) (rnd (6 / 100)) g")
  obtain b g2 where u2: "uniform (- rnd (6 / 100)) (rnd (6 / 100)) g1 = (b, g2)"
    by (cases "uniform (- rnd (6 / 100)) (rnd (6 / 100)) g1")
  have "g2 = advance (2 + 2) g"
    using uniform_offset [OF u1] uniform_offset [OF u2] by (simp add: advance_advance)
  with assms have "fair g2"
    by (simp add: fair_advance)
  from randint_returns [OF this, of 1000 9999] obtain n g3 where r1: "randint 1000 9999 g2 = Some (n, g3)"
    by auto
  from randint_result [OF r1] \<open>fair g2\<close> have "fair g3"
    by (auto simp: fair_advance)
  from randint_returns [OF this, of 10 100] obtain i g4 where r2: "randint 10 100 g3 = Some (i, g4)"
    by auto
  show ?thesis
    unfolding make_strike_def Let_def u1 u2 prod.case by (simp add: r1 r2)
qed

lemma make_strikes_result:
  "make_strikes k g = Some (ss, g') \<Longrightarrow>
     length ss = k \<and> (\<forall>s\<in>set ss. \<exists>h h'. make_strike h = Some (s, h')) \<and> (\<exists>j. g' = advance j g)"
proof (induction k arbitrary: g ss)
  case 0
  then have "ss = [] \<and> g' = advance 0 g"
    by (simp add: advance_0)
  then show ?case by auto
next
  case (Suc k)
  from Suc.prems obtain s g1 rest where m: "make_strike g = Some (s, g1)"
    and r: "make_strikes k g1 = Some (rest, g')" and ss: "ss = s # rest"
    by (auto split: option.splits)
  from make_strike_result [OF m] obtain j1 where j1: "g1 = advance j1 g"
    by blast
  from Suc.IH [OF r] obtain j2 where len: "length rest = k"
    and all: "\<forall>s\<in>set rest. \<exists>h h'. make_strike h = Some (s, h')" and j2: "g' = advance j2 g1"
    by blast
  have "g' = advance (j1 + j2) g"
    using j1 j2 by (simp add: advance_advance)
  with len all m ss show ?case
    by auto
qed

lemma make_strikes_returns:
  "fair g \<Longrightarrow> \<exists>ss g'. make_strikes k g = Some (ss, g')"
proof (induction k arbitrary: g)
  case 0
  show ?case by simp
next
  case (Suc k)
  from make_strike_returns [OF Suc.prems] obtain s g1 where m: "make_strike g = Some (s, g1)"
    by blast
  from make_strike_result [OF m] Suc.prems have "fair g1"
    by (auto simp: fair_advance)
  from Suc.IH [OF this] obtain ss g' where "make_strikes k g1 = Some (ss, g')"
    by blast
  with m show ?case by simp
qed

lemma simulator_result:
  assumes "kma_lightning_simulator g = Some (resp, g')"
  shows "\<exists>ss. resp = (200, simulator_body ss) \<and> length ss \<le> 5 \<and>
     (\<forall>s\<in>set ss. \<exists>h h'. make_strike h = Some (s, h'))"
proof -
  from assms obtain num g1 ss where r: "randint 0 5 g = Some (num, g1)"
    and m: "make_strikes (nat num) g1 = Some (ss, g')" and resp: "resp = (200, simulator_body ss)"
    by (auto simp: kma_lightning_simulator_def simulator_body_def split: option.splits)
  from randint_result [OF r] have "0 \<le> num" "num \<le> 5"
    by simp_all
  with make_strikes_result [OF m] resp show ?thesis
    by auto
qed

lemma simulator_returns:
  assumes "fair g"
  shows "\<exists>resp g'. kma_lightning_simulator g = Some (resp, g')"
proof -
  from randint_returns [OF assms, of 0 5] obtain num g1 where r: "randint 0 5 g = Some (num, g1)"
    by auto
  from randint_result [OF r] assms have "fair g1"
    by (auto simp: fair_advance)
  from make_strikes_returns [OF this] obtain ss g' where "make_strikes (nat num) g1 = Some (ss, g')"
    by blast
  with r show ?thesis
    by (simp add: kma_lightning_simulator_def)
qed




lemma make_strike_top:
  assumes "unat w1 div 262144 < 9000" and "unat w2 div 33554432 < 91"
  shows "make_strike (from_words (0xFFFFFFFF # 0xFFFFFFFF # 0x80000000 # 0 # w1 # w2 # ws)) =
     Some (simulated_strike (1000 + int (unat w1 div 2 ^ 18)) (4323455642275675 / 72057594037927936) 0
             (10 + int (unat w2 div 2 ^ 25)), from_words ws)"
proof -
  have 1: "randint 1000 9999 (from_words (w1 # w2 # ws)) =
      Some (1000 + int (unat w1 div 2 ^ (32 - 14)), from_words (w2 # ws))"
    by (rule randint_accept [where n = 9000]) (simp_all add: floorlog_values assms)
  have 2: "randint 10 100 (from_words (w2 # ws)) =
      Some (10 + int (unat w2 div 2 ^ (32 - 7)), from_words ws)"
    by (rule randint_accept [where n = 91]) (simp_all add: floorlog_values assms)
  show ?thesis
    unfolding make_strike_def Let_def uniform_half uniform_top prod.case 1 option.case 2 simulated_strike_def
    by simp
qed

lemma str_int_4242: "str_int 4242 = ''4242''"
  by (simp add: str_int_def str_nat.simps [of 4242] str_nat.simps [of 424] str_nat.simps [of 42]
      str_nat.simps [of 4] digit_char_def)


lemma strike_north:
  "simulated_strike 4242 (4323455642275675 / 72057594037927936) 0 i =
     JObj [(''id'', JStr ''strike_4242''),
           (''latitude'', JFloat (rnd (37618 / 1000))),
           (''longitude'', JFloat GMP_LONGITUDE),
           (''intensity_kA'', JInt i)]"
  unfolding simulated_strike_def str_int_4242 GMP_LATITUDE_value GMP_LONGITUDE_value
    lat_sum_max lon_sum_half lat_round_max lon_round_half lat_max_value
  by simp


lemma simulator_top:
  "kma_lightning_simulator top_rng =
     Some ((200, simulator_body [simulated_strike 4242 (4323455642275675 / 72057594037927936) 0 50]),
           from_words [])"
proof -
  have "randint 0 5 top_rng = Some (0 + int (unat (0x20000000 :: 32 word) div 2 ^ (32 - 3)),
      from_words [0xFFFFFFFF, 0xFFFFFFFF, 0x80000000, 0, 0x32A80000, 0x50000000])"
    unfolding top_rng_def
    by (rule randint_accept [where n = 6]) (simp_all add: floorlog_values)
  then have 0: "randint 0 5 top_rng = Some (1,
      from_words [0xFFFFFFFF, 0xFFFFFFFF, 0x80000000, 0, 0x32A80000, 0x50000000])"
    by simp
  have 1: "make_strike (from_words [0xFFFFFFFF, 0xFFFFFFFF, 0x80000000, 0, 0x32A80000, 0x50000000]) =
      Some (simulated_strike 4242 (4323455642275675 / 72057594037927936) 0 50, from_words [])"
    using make_strike_top [of "0x32A80000" "0x50000000" "[]"]
    by simp
  have n: "nat 1 = Suc 0"
    by simp
  have "make_strikes (Suc 0) (from_words [0xFFFFFFFF, 0xFFFFFFFF, 0x80000000, 0, 0x32A80000, 0x50000000]) =
      Some ([simulated_strike 4242 (4323455642275675 / 72057594037927936) 0 50], from_words [])"
    by (simp add: 1)
  then show ?thesis
    unfolding kma_lightning_simulator_def 0 option.case prod.case n
    by (simp add: simulator_body_def)
qed



text \<open>
  Claim C4, as stated, fails in its last clause: the latitude \<open>37.618\<close> is drawn (on
  the generator \<open>top_rng\<close>), and as a float it is further than \<open>0.06\<close> from
  \<open>37.558\<close>, both exactly and in float arithmetic.
\<close>

theorem simulator_ranges_counterexample:
  "kma_lightning_simulator top_rng =
     Some ((200, JObj [(''status'', JStr ''success''),
                       (''source'', JStr ''KMA Virtual Lightning Detector''),
                       (''data'', JArr
                          [JObj [(''id'', JStr ''strike_4242''),
                                 (''latitude'', JFloat (rnd (37618 / 1000))),
                                 (''longitude'', JFloat GMP_LONGITUDE),
                                 (''intensity_kA'', JInt 50)]])]), from_words []) \<and>
   6 / 100 < \<bar>rnd (37618 / 1000) - 37558 / 1000\<bar> \<and>
   rnd (6 / 100) < \<bar>fsub (rnd (37618 / 1000)) GMP_LATITUDE\<bar>"
proof -
  have "6 / 100 < \<bar>rnd (37618 / 1000) - 37558 / 1000\<bar>"
    unfolding lat_max_value by simp
  moreover have "rnd (6 / 100) < \<bar>fsub (rnd (37618 / 1000)) GMP_LATITUDE\<bar>"
    unfolding lat_max_value GMP_LATITUDE_value lat_max_diff c006_value by simp
  ultimately show ?thesis
    using simulator_top [unfolded strike_north simulator_body_def] by blast
qed

text \<open>
  Claim C4, amended. Whenever the simulator answers, the data list has at most 5
  records, and every record has an integer intensity from 10 to 100, a latitude equal to
  the origin latitude plus an offset in \<open>[-0.06, 0.06]\<close> rounded to 6 decimal places, so
  that the latitude is a float from \<open>37.498\<close> to \<open>37.618\<close> and
  \<open>\<bar>latitude - 37.558\<bar> \<le> 0.06 + 1e-14\<close>, and a longitude equal to the origin longitude
  plus such an offset rounded to 6 decimal places, a float from \<open>126.734\<close> to
  \<open>126.854\<close> with \<open>\<bar>longitude - 126.794\<bar> \<le> 0.06 + 1e-14\<close>. The simulator answers on
  every generator that delivers words with a clear top bit again and again.
\<close>

theorem simulator_ranges:
  "(kma_lightning_simulator g = Some (resp, g') \<longrightarrow>
      (\<exists>ss. resp = (200, JObj [(''status'', JStr ''success''),
                                (''source'', JStr ''KMA Virtual Lightning Detector''),
                                (''data'', JArr ss)]) \<and>
         length ss \<le> 5 \<and>
         (\<forall>s\<in>set ss. \<exists>n a b i. s = simulated_strike n a b i \<and> 10 \<le> i \<and> i \<le> 100 \<and>
            offset a \<and> offset b \<and>
            in_band (py_round (fadd GMP_LATITUDE a) 6) (37558 / 1000) \<and>
            in_band (py_round (fadd GMP_LONGITUDE b) 6) (126794 / 1000)))) \<and>
   (fair g \<longrightarrow> (\<exists>resp g'. kma_lightning_simulator g = Some (resp, g')))"
proof -
  have c1: "\<exists>ss. resp = (200, JObj [(''status'', JStr ''success''),
                                (''source'', JStr ''KMA Virtual Lightning Detector''),
                                (''data'', JArr ss)]) \<and>
         length ss \<le> 5 \<and>
         (\<forall>s\<in>set ss. \<exists>n a b i. s = simulated_strike n a b i \<and> 10 \<le> i \<and> i \<le> 100 \<and>
            offset a \<and> offset b \<and>
            in_band (py_round (fadd GMP_LATITUDE a) 6) (37558 / 1000) \<and>
            in_band (py_round (fadd GMP_LONGITUDE b) 6) (126794 / 1000))"
    if "kma_lightning_simulator g = Some (resp, g')"
  proof -
    from simulator_result [OF that] obtain ss where resp: "resp = (200, simulator_body ss)"
      and len: "length ss \<le> 5"
      and all: "\<forall>s\<in>set ss. \<exists>h h'. make_strike h = Some (s, h')"
      by blast
    have "\<exists>n a b i. s = simulated_strike n a b i \<and> 10 \<le> i \<and> i \<le> 100 \<and>
            offset a \<and> offset b \<and>
            in_band (py_round (fadd GMP_LATITUDE a) 6) (37558 / 1000) \<and>
            in_band (py_round (fadd GMP_LONGITUDE b) 6) (126794 / 1000)"
      if "s \<in> set ss" for s
    proof -
      from all that obtain h h' where "make_strike h = Some (s, h')"
        by blast
      from make_strike_result [OF this] show ?thesis
        by blast
    qed
    with resp len show ?thesis
      by (simp add: simulator_body_def)
  qed
  have c2: "\<exists>resp g'. kma_lightning_simulator g = Some (resp, g')" if "fair g"
    using that by (rule simulator_returns)
  from c1 c2 show ?thesis
    by blast
qed

theorem simulator_ranges_witness:
  "fair top_rng \<and>
   kma_lightning_simulator top_rng =
     Some ((200, JObj [(''status'', JStr ''success''),
                       (''source'', JStr ''KMA Virtual Lightning Detector''),
                       (''data'', JArr [simulated_strike 4242 (4323455642275675 / 72057594037927936) 0 50])]),
           from_words []) \<and>
   offset (4323455642275675 / 72057594037927936) \<and>
   in_band (rnd (37618 / 1000)) (37558 / 1000)"
proof -
  have "fair top_rng"
    unfolding top_rng_def by (rule from_words_fair)
  moreover have "offset (4323455642275675 / 72057594037927936)"
    by (rule offset_bounds) simp_all
  moreover have "in_band (rnd (37618 / 1000)) (37558 / 1000)"
    using latitude_in_band [of "4323455642275675 / 72057594037927936"]
    unfolding GMP_LATITUDE_value lat_sum_max lat_round_max lat_max_value by simp
  ultimately show ?thesis
    using simulator_ranges [of top_rng] simulator_top [unfolded simulator_body_def]
    by simp
qed

end
